theory Spec2Isabelle
  imports Main "HOL-Library.Sublist" "HOL-Library.Char_ord" "HOL-Library.List_Lexorder"
begin

section \<open>Data model\<close>

text \<open>
  Notes, attachment descriptors and API responses are Python dictionaries decoded from
  JSON. A JSON value is modelled as it is after decoding: \<open>JNull\<close> is Python's \<open>None\<close>,
  an object is an association list read with \<open>map_of\<close>. JSON numbers are taken to be
  integers (none of the modelled code does arithmetic on a decoded number; only their
  truth value is read).
\<close>

datatype json =
    JNull
  | JBool bool
  | JNum int
  | JStr string
  | JArr "json list"
  | JObj "(string \<times> json) list"

type_synonym dict = "(string \<times> json) list"
type_synonym note_dict = dict

text \<open>The exceptions that the modelled code raises, catches or lets through.\<close>

datatype exn =
    RequestException string
  | KeyError string
  | TypeError
  | AttributeError
  | ValueError string
  | OverflowError
  | FileNotFoundError
  | JSONDecodeError
  | OtherError string

fun is_RequestException :: "exn \<Rightarrow> bool" where
  "is_RequestException (RequestException _) = True"
| "is_RequestException _ = False"

subsection \<open>Python primitives on decoded JSON\<close>

text \<open>\<open>d.get(k)\<close>: the value, or \<open>None\<close> when the key is missing.\<close>

definition get :: "dict \<Rightarrow> string \<Rightarrow> json" where
  "get d k = (case map_of d k of None \<Rightarrow> JNull | Some v \<Rightarrow> v)"

text \<open>\<open>d.get(k, default)\<close>: the default only replaces a missing key, not a null value.\<close>

definition get_default :: "dict \<Rightarrow> string \<Rightarrow> json \<Rightarrow> json" where
  "get_default d k dflt = (case map_of d k of None \<Rightarrow> dflt | Some v \<Rightarrow> v)"

text \<open>\<open>d[k]\<close>: raises \<open>KeyError\<close> when the key is missing.\<close>

definition subscript :: "dict \<Rightarrow> string \<Rightarrow> exn + json" where
  "subscript d k = (case map_of d k of None \<Rightarrow> Inl (KeyError k) | Some v \<Rightarrow> Inr v)"

text \<open>Truth value of an object in a condition.\<close>

fun truthy :: "json \<Rightarrow> bool" where
  "truthy JNull = False"
| "truthy (JBool b) = b"
| "truthy (JNum n) = (n \<noteq> 0)"
| "truthy (JStr s) = (s \<noteq> [])"
| "truthy (JArr xs) = (xs \<noteq> [])"
| "truthy (JObj d) = (d \<noteq> [])"

text \<open>
  \<open>x == y\<close> on decoded values: a boolean is the number 0 or 1, \<open>None\<close> equals only
  itself, lists are compared element by element, dictionaries key by key whatever the
  order of their entries (an entry behind an earlier one with the same key is never
  read).
\<close>

fun py_eq :: "json \<Rightarrow> json \<Rightarrow> bool"
  and py_eq_list :: "json list \<Rightarrow> json list \<Rightarrow> bool"
  and py_eq_items :: "dict \<Rightarrow> string list \<Rightarrow> dict \<Rightarrow> bool" where
  "py_eq JNull JNull = True"
| "py_eq (JBool a) (JBool b) = (a = b)"
| "py_eq (JBool a) (JNum n) = (n = (if a then 1 else 0))"
| "py_eq (JNum n) (JBool a) = (n = (if a then 1 else 0))"
| "py_eq (JNum n) (JNum m) = (n = m)"
| "py_eq (JStr s) (JStr t) = (s = t)"
| "py_eq (JArr xs) (JArr ys) = py_eq_list xs ys"
| "py_eq (JObj d) (JObj e) = (set (map fst d) = set (map fst e) \<and> py_eq_items d [] e)"
| "py_eq _ _ = False"
| "py_eq_list [] [] = True"
| "py_eq_list (x # xs) (y # ys) = (py_eq x y \<and> py_eq_list xs ys)"
| "py_eq_list _ _ = False"
| "py_eq_items [] seen e = True"
| "py_eq_items ((k, v) # rest) seen e =
     ((if k \<in> set seen then True
       else (case map_of e k of None \<Rightarrow> False | Some v' \<Rightarrow> py_eq v v')) \<and>
      py_eq_items rest (k # seen) e)"

text \<open>\<open>len(x)\<close>: defined on strings, lists and dictionaries, \<open>TypeError\<close> otherwise.\<close>

fun py_len :: "json \<Rightarrow> exn + nat" where
  "py_len (JStr s) = Inr (length s)"
| "py_len (JArr xs) = Inr (length xs)"
| "py_len (JObj d) = Inr (card (fst ` set d))"
| "py_len _ = Inl TypeError"

text \<open>
  \<open>"@" in x\<close>: substring test on a string, membership on a list, key membership on a
  dictionary, \<open>TypeError\<close> on anything else.
\<close>

fun at_in :: "json \<Rightarrow> exn + bool" where
  "at_in (JStr s) = Inr (CHR ''@'' \<in> set s)"
| "at_in (JArr xs) = Inr (JStr ''@'' \<in> set xs)"
| "at_in (JObj d) = Inr (''@'' \<in> fst ` set d)"
| "at_in _ = Inl TypeError"

section \<open>Eligibility filter and visibility mapper\<close>

text \<open>
  \<open>should_crosspost\<close>, rule by rule in the order of the source. The third and fourth
  conditions are \<open>x and y\<close> expressions: the right operand is only evaluated when the
  left one is true, and it may raise on a value of the wrong type.
\<close>

definition mentions_cond :: "note_dict \<Rightarrow> exn + bool" where
  "mentions_cond n =
     (if truthy (get n ''mentions'')
      then (case py_len (get n ''mentions'') of Inl e \<Rightarrow> Inl e | Inr k \<Rightarrow> Inr (k > 0))
      else Inr False)"

definition text_cond :: "note_dict \<Rightarrow> exn + bool" where
  "text_cond n =
     (if truthy (get n ''text'')
      then at_in (get_default n ''text'' (JStr ''''))
      else Inr False)"

definition should_crosspost :: "note_dict \<Rightarrow> exn + bool" where
  "should_crosspost n =
     (if get n ''replyId'' \<noteq> JNull then Inr False
      else if get n ''renoteId'' \<noteq> JNull then Inr False
      else (case mentions_cond n of
              Inl e \<Rightarrow> Inl e
            | Inr True \<Rightarrow> Inr False
            | Inr False \<Rightarrow>
                (case text_cond n of
                   Inl e \<Rightarrow> Inl e
                 | Inr True \<Rightarrow> Inr False
                 | Inr False \<Rightarrow> Inr True)))"

text \<open>
  \<open>misskey_to_mastodon_visibility\<close> on its declared argument type \<open>str\<close>:
  \<open>visibility_map.get(misskey_visibility, "public")\<close>.
\<close>

definition visibility_map :: "(string \<times> string) list" where
  "visibility_map =
     [(''public'', ''public''),
      (''followers'', ''private''),
      (''specified'', ''direct''),
      (''home'', ''unlisted'')]"

definition misskey_to_mastodon_visibility :: "string \<Rightarrow> string" where
  "misskey_to_mastodon_visibility v =
     (case map_of visibility_map v of None \<Rightarrow> ''public'' | Some m \<Rightarrow> m)"


section \<open>Effects: the trace of calls, the world's answers, the mutable state\<close>

text \<open>
  Every call that leaves the process, every sleep, every printed line and every write
  of the state file is recorded, in order, in a trace. A network call is recorded with
  its arguments and with what it returned or raised.
\<close>

datatype log_msg =
    StreamError exn              \<comment> \<open>\<open>Error streaming notes: ...\<close>\<close>
  | FileError json exn           \<comment> \<open>\<open>Error processing file {name}: ...\<close>\<close>
  | CrosspostOk json             \<comment> \<open>\<open>Successfully crossposted note {id}\<close>\<close>
  | CrosspostError json exn      \<comment> \<open>\<open>Error crossposting note {id}: ...\<close>\<close>
  | ConfigFileError exn          \<comment> \<open>\<open>Error loading config file: ...\<close>\<close>

datatype event =
    Fetch json int json "exn + note_dict list"
      \<comment> \<open>\<open>get_user_notes(user_id, limit, since_id)\<close> and its outcome\<close>
  | Download string "exn + (string \<times> string \<times> string)"
      \<comment> \<open>the URL requested; content, file name and content type, or the exception\<close>
  | Upload string string string dict "exn + dict"
      \<comment> \<open>\<open>upload_media\<close>: content, file name, MIME type, form data; the response\<close>
  | CreateStatus json "json list" string json "exn + dict"
      \<comment> \<open>\<open>create_status(text, media_ids, visibility, spoiler_text)\<close>; the response\<close>
  | Sleep int
  | Print log_msg
  | Yield note_dict
      \<comment> \<open>\<open>stream_notes\<close> hands a note to its consumer\<close>
  | SaveState json
      \<comment> \<open>\<open>save_state(since_id)\<close> rewrites the state file\<close>
  | Signal
      \<comment> \<open>\<open>signal_handler\<close> ran: it prints and calls \<open>stop_streaming()\<close>\<close>

text \<open>
  The world answers each network call; the answer may depend on when the call is made,
  so it is a function of the position of the call in the trace. The world also decides
  when SIGINT or SIGTERM arrives: \<open>signal_at w i\<close> says that one is delivered while
  the event at position \<open>i\<close> takes place or right after it, \<open>signal_before w i\<close> that
  one is delivered when the trace has length \<open>i\<close> and \<open>stream_notes\<close> has just found its
  flag up, before it sends the request of that iteration.
\<close>

record world =
  notes_resp :: "nat \<Rightarrow> exn + note_dict list"
  download_resp :: "nat \<Rightarrow> exn + (string \<times> string \<times> string)"
  upload_resp :: "nat \<Rightarrow> exn + dict"
  status_resp :: "nat \<Rightarrow> exn + dict"
  signal_at :: "nat \<Rightarrow> bool"
  signal_before :: "nat \<Rightarrow> bool"

text \<open>
  The mutable state of the process: \<open>running\<close> is \<open>MisskeyClient._running\<close>,
  \<open>since_cfg\<close> is \<open>config.since_id\<close>, \<open>saved\<close> is the \<open>since_id\<close> held by the
  state file (\<open>JNull\<close> when there is none). Writing the state file is taken to succeed.
\<close>

record state =
  trace :: "event list"
  running :: bool
  since_cfg :: json
  saved :: json

text \<open>
  Recording an event. The signal handler of \<open>main\<close> runs between two steps of the
  main thread: it prints, sets \<open>_running\<close> to false and nothing else, and the
  interrupted call or sleep then runs to its end. \<open>emit\<close> records a run of the handler
  after the event during or after which the signal arrived. The flag is read by the
  test \<open>while self._running\<close> only, and a signal can also arrive after that test and
  before the request that follows it: \<open>deliver\<close> runs the handler there, when the test
  has already read the flag.
\<close>

definition emit :: "world \<Rightarrow> event \<Rightarrow> state \<Rightarrow> state" where
  "emit w e st =
     (if signal_at w (length (trace st))
      then st\<lparr>trace := trace st @ [e, Signal], running := False\<rparr>
      else st\<lparr>trace := trace st @ [e]\<rparr>)"

definition deliver :: "world \<Rightarrow> state \<Rightarrow> state" where
  "deliver w st =
     (if signal_before w (length (trace st))
      then st\<lparr>trace := trace st @ [Signal], running := False\<rparr>
      else st)"

section \<open>The two clients\<close>

definition rstrip_slash :: "string \<Rightarrow> string" where
  "rstrip_slash s = rev (dropWhile (\<lambda>c. c = CHR ''/'') (rev s))"

definition lstrip_slash :: "string \<Rightarrow> string" where
  "lstrip_slash s = dropWhile (\<lambda>c. c = CHR ''/'') s"

text \<open>The request body that \<open>get_user_notes\<close> builds.\<close>

definition get_user_notes_data :: "json \<Rightarrow> int \<Rightarrow> json \<Rightarrow> dict" where
  "get_user_notes_data user_id limit since_id =
     [(''userId'', user_id), (''limit'', JNum limit),
      (''includeReplies'', JBool False), (''includeMyRenotes'', JBool False)]
     @ (if truthy since_id then [(''sinceId'', since_id)] else [])"

definition get_user_notes ::
  "world \<Rightarrow> json \<Rightarrow> int \<Rightarrow> json \<Rightarrow> state \<Rightarrow> (exn + note_dict list) \<times> state" where
  "get_user_notes w user_id limit since_id st =
     (let r = notes_resp w (length (trace st))
      in (r, emit w (Fetch user_id limit since_id r) st))"

text \<open>
  \<open>download_attachment\<close>: \<open>inst\<close> is the client's \<open>instance\<close> attribute. A URL that
  does not start with \<open>http\<close> is taken relative to the instance. A value that is not a
  string has no \<open>startswith\<close>.
\<close>

definition absolute_url :: "string \<Rightarrow> string \<Rightarrow> string" where
  "absolute_url inst u = (if take 4 u = ''http'' then u else inst @ ''/'' @ lstrip_slash u)"

definition download_attachment ::
  "world \<Rightarrow> string \<Rightarrow> json \<Rightarrow> state \<Rightarrow> (exn + (string \<times> string \<times> string)) \<times> state" where
  "download_attachment w inst file_url st =
     (case file_url of
        JStr u \<Rightarrow>
          (let r = download_resp w (length (trace st))
           in (r, emit w (Download (absolute_url inst u) r) st))
      | _ \<Rightarrow> (Inl AttributeError, st))"

definition upload_media ::
  "world \<Rightarrow> string \<Rightarrow> string \<Rightarrow> string \<Rightarrow> json \<Rightarrow> state \<Rightarrow> (exn + dict) \<times> state" where
  "upload_media w file_content filename mime_type description st =
     (let data = (if truthy description then [(''description'', description)] else []);
          r = upload_resp w (length (trace st))
      in (r, emit w (Upload file_content filename mime_type data r) st))"

text \<open>The request body that \<open>create_status\<close> builds.\<close>

definition create_status_data :: "json \<Rightarrow> json list \<Rightarrow> string \<Rightarrow> json \<Rightarrow> dict" where
  "create_status_data text media_ids visibility spoiler_text =
     [(''status'', text), (''visibility'', JStr visibility),
      (''content_type'', JStr ''text/markdown'')]
     @ (if media_ids \<noteq> [] then [(''media_ids'', JArr media_ids)] else [])
     @ (if truthy spoiler_text then [(''spoiler_text'', spoiler_text)] else [])"

definition create_status ::
  "world \<Rightarrow> json \<Rightarrow> json list \<Rightarrow> string \<Rightarrow> json \<Rightarrow> state \<Rightarrow> (exn + dict) \<times> state" where
  "create_status w text media_ids visibility spoiler_text st =
     (let r = status_resp w (length (trace st))
      in (r, emit w (CreateStatus text media_ids visibility spoiler_text r) st))"

section \<open>Attachment transfer\<close>

text \<open>The body of the \<open>try\<close> in \<open>process_misskey_files\<close>, for one descriptor.\<close>

definition transfer_file :: "world \<Rightarrow> string \<Rightarrow> dict \<Rightarrow> state \<Rightarrow> (exn + json) \<times> state" where
  "transfer_file w inst file st =
     (case subscript file ''url'' of
        Inl e \<Rightarrow> (Inl e, st)
      | Inr u \<Rightarrow>
          (case download_attachment w inst u st of
             (Inl e, st1) \<Rightarrow> (Inl e, st1)
           | (Inr (file_content, filename, mime_type), st1) \<Rightarrow>
               (case upload_media w file_content filename mime_type (get file ''comment'') st1 of
                  (Inl e, st2) \<Rightarrow> (Inl e, st2)
                | (Inr media, st2) \<Rightarrow>
                    (case subscript media ''id'' of
                       Inl e \<Rightarrow> (Inl e, st2)
                     | Inr media_id \<Rightarrow> (Inr media_id, emit w (Sleep 1) st2)))))"

text \<open>
  The loop of \<open>process_misskey_files\<close>, with \<open>media_ids\<close> as accumulator. The handler
  prints \<open>file.get('name', 'unknown')\<close>; on an element that is not a dictionary the
  subscript raises, the handler's \<open>file.get\<close> raises in turn, and that exception leaves
  the function.
\<close>

fun process_files_from ::
  "world \<Rightarrow> string \<Rightarrow> json list \<Rightarrow> json list \<Rightarrow> state \<Rightarrow> (exn + json list) \<times> state" where
  "process_files_from w inst [] media_ids st = (Inr media_ids, st)"
| "process_files_from w inst (f # fs) media_ids st =
     (case f of
        JObj file \<Rightarrow>
          (case transfer_file w inst file st of
             (Inr media_id, st1) \<Rightarrow> process_files_from w inst fs (media_ids @ [media_id]) st1
           | (Inl e, st1) \<Rightarrow>
               process_files_from w inst fs media_ids
                 (emit w (Print (FileError (get_default file ''name'' (JStr ''unknown'')) e)) st1))
      | _ \<Rightarrow> (Inl AttributeError, st))"

definition process_misskey_files ::
  "world \<Rightarrow> string \<Rightarrow> json list \<Rightarrow> state \<Rightarrow> (exn + json list) \<times> state" where
  "process_misskey_files w inst files st = process_files_from w inst files [] st"

section \<open>Crossposting one note\<close>

text \<open>
  Iterating over \<open>note["files"]\<close>: a list is iterated; the elements of a non-empty
  string or dictionary are strings, on which the first step of
  \<open>process_misskey_files\<close> already raises; a number or boolean is not iterable.
\<close>

definition process_note_files ::
  "world \<Rightarrow> string \<Rightarrow> json \<Rightarrow> state \<Rightarrow> (exn + json list) \<times> state" where
  "process_note_files w inst files st =
     (case files of
        JArr fs \<Rightarrow> process_misskey_files w inst fs st
      | JStr _ \<Rightarrow> (Inl AttributeError, st)
      | JObj _ \<Rightarrow> (Inl AttributeError, st)
      | _ \<Rightarrow> (Inl TypeError, st))"

text \<open>
  The call \<open>misskey_to_mastodon_visibility(note.get("visibility", "public"))\<close>: the
  value read from the note need not be a string. \<open>dict.get\<close> hashes its key, which
  raises on a list or a dictionary, and finds no entry for \<open>None\<close>, a number or a
  boolean.
\<close>

definition note_visibility :: "note_dict \<Rightarrow> exn + string" where
  "note_visibility n =
     (case get_default n ''visibility'' (JStr ''public'') of
        JStr v \<Rightarrow> Inr (misskey_to_mastodon_visibility v)
      | JArr _ \<Rightarrow> Inl TypeError
      | JObj _ \<Rightarrow> Inl TypeError
      | _ \<Rightarrow> Inr ''public'')"

text \<open>
  \<open>time.sleep\<close> on an integer number of seconds (\<open>crosspost_delay\<close> is an \<open>int\<close>).
  CPython first converts the length to nanoseconds held in a signed 64-bit integer and
  raises \<open>OverflowError\<close> when it does not fit, which is the case beyond \<open>max_sleep\<close>
  seconds either way; it then raises \<open>ValueError\<close> on a negative length. A length
  within these bounds is slept in full (as on Linux; a signal handler that returns
  does not cut the sleep short). The fixed sleeps of 1, 5 and 30 seconds of the program
  are within the bounds and are recorded directly.
\<close>

definition max_sleep :: int where
  "max_sleep = 9223372036"

definition sleep :: "world \<Rightarrow> int \<Rightarrow> state \<Rightarrow> (exn + unit) \<times> state" where
  "sleep w secs st =
     (if secs < - max_sleep \<or> max_sleep < secs then (Inl OverflowError, st)
      else if secs < 0 then (Inl (ValueError ''sleep length must be non-negative''), st)
      else (Inr (), emit w (Sleep secs) st))"

text \<open>
  The body of the \<open>try\<close> that \<open>crosspost\<close> (lines 253 to 273) and \<open>main\<close> (lines 369
  to 389) both run for an eligible note; the two copies are the same statements.
\<close>

definition crosspost_body ::
  "world \<Rightarrow> string \<Rightarrow> int \<Rightarrow> note_dict \<Rightarrow> state \<Rightarrow> (exn + unit) \<times> state" where
  "crosspost_body w inst delay n st =
     (case (if truthy (get n ''files'')
            then process_note_files w inst (get n ''files'') st
            else (Inr [], st)) of
        (Inl e, st1) \<Rightarrow> (Inl e, st1)
      | (Inr media_ids, st1) \<Rightarrow>
          (case note_visibility n of
             Inl e \<Rightarrow> (Inl e, st1)
           | Inr visibility \<Rightarrow>
               (case create_status w (get_default n ''text'' (JStr [])) media_ids visibility
                       (get n ''cw'') st1 of
                  (Inl e, st2) \<Rightarrow> (Inl e, st2)
                | (Inr _, st2) \<Rightarrow>
                    (case subscript n ''id'' of
                       Inl e \<Rightarrow> (Inl e, st2)
                     | Inr i \<Rightarrow> sleep w delay (emit w (Print (CrosspostOk i)) st2)))))"

text \<open>
  The \<open>try\<close> with its handler \<open>except Exception\<close>. The handler formats \<open>note['id']\<close>,
  which is the only way an exception gets past it.
\<close>

definition crosspost_note ::
  "world \<Rightarrow> string \<Rightarrow> int \<Rightarrow> note_dict \<Rightarrow> state \<Rightarrow> (exn + unit) \<times> state" where
  "crosspost_note w inst delay n st =
     (case crosspost_body w inst delay n st of
        (Inr u, st1) \<Rightarrow> (Inr (), st1)
      | (Inl e, st1) \<Rightarrow>
          (case subscript n ''id'' of
             Inl k \<Rightarrow> (Inl k, st1)
           | Inr i \<Rightarrow> (Inr (), emit w (Print (CrosspostError i e)) st1)))"

section \<open>Batch mode: \<open>crosspost\<close>\<close>

record config =
  misskey_instance :: json
  misskey_token :: json
  misskey_user_id :: json
  mastodon_instance :: json
  mastodon_token :: json
  fetch_limit :: int
  since_id :: json
  crosspost_delay :: int

text \<open>
  The loop over the fetched notes, with \<open>newest_id\<close> (\<open>JNull\<close> for \<open>None\<close>). It is
  assigned while it is \<open>None\<close>, that is, from the first note of the batch.
\<close>

fun crosspost_loop ::
  "world \<Rightarrow> string \<Rightarrow> int \<Rightarrow> note_dict list \<Rightarrow> json \<Rightarrow> state \<Rightarrow> (exn + json) \<times> state" where
  "crosspost_loop w inst delay [] newest_id st = (Inr newest_id, st)"
| "crosspost_loop w inst delay (n # ns) newest_id st =
     (case (if newest_id = JNull then subscript n ''id'' else Inr newest_id) of
        Inl e \<Rightarrow> (Inl e, st)
      | Inr newest_id' \<Rightarrow>
          (case should_crosspost n of
             Inl e \<Rightarrow> (Inl e, st)
           | Inr False \<Rightarrow> crosspost_loop w inst delay ns newest_id' st
           | Inr True \<Rightarrow>
               (case crosspost_note w inst delay n st of
                  (Inl e, st1) \<Rightarrow> (Inl e, st1)
                | (Inr _, st1) \<Rightarrow> crosspost_loop w inst delay ns newest_id' st1)))"

text \<open>
  \<open>crosspost(config)\<close>. Both client constructors strip the instance URL, which needs
  a string. The fetch is outside any \<open>try\<close>. The result is \<open>newest_id\<close>.
\<close>

definition crosspost :: "world \<Rightarrow> config \<Rightarrow> state \<Rightarrow> (exn + json) \<times> state" where
  "crosspost w cfg st =
     (case (misskey_instance cfg, mastodon_instance cfg) of
        (JStr mi, JStr ma) \<Rightarrow>
          (case get_user_notes w (misskey_user_id cfg) (fetch_limit cfg) (since_id cfg) st of
             (Inl e, st1) \<Rightarrow> (Inl e, st1)
           | (Inr notes, st1) \<Rightarrow>
               crosspost_loop w (rstrip_slash mi) (crosspost_delay cfg) notes JNull st1)
      | _ \<Rightarrow> (Inl AttributeError, st))"

section \<open>Continuous mode: \<open>stream_notes\<close> and the loop of \<open>main\<close>\<close>

definition save_state :: "world \<Rightarrow> json \<Rightarrow> state \<Rightarrow> state" where
  "save_state w i st = emit w (SaveState i) (st\<lparr>saved := i\<rparr>)"

text \<open>The body of the \<open>for\<close> loop of \<open>main\<close> (lines 367 to 396), run on each yielded note.\<close>

definition handle_note ::
  "world \<Rightarrow> string \<Rightarrow> int \<Rightarrow> note_dict \<Rightarrow> state \<Rightarrow> (exn + unit) \<times> state" where
  "handle_note w inst delay n st =
     (case should_crosspost n of
        Inl e \<Rightarrow> (Inl e, st)
      | Inr eligible \<Rightarrow>
          (case (if eligible then crosspost_note w inst delay n st else (Inr (), st)) of
             (Inl e, st1) \<Rightarrow> (Inl e, st1)
           | (Inr _, st1) \<Rightarrow>
               (case subscript n ''id'' of
                  Inl e \<Rightarrow> (Inl e, st1)
                | Inr i \<Rightarrow> (Inr (), save_state w i (st1\<lparr>since_cfg := i\<rparr>)))))"

text \<open>
  The \<open>for note in notes\<close> loop of the generator \<open>stream_notes\<close>, together with its
  consumer: at \<open>yield\<close> the consumer's loop body \<open>body\<close> runs on the note, and when it
  returns the generator resumes with \<open>since_id = note["id"]\<close>. An exception of the
  consumer ends the consumer's loop, and the generator is not resumed. The test
  \<open>since_id is None or note["id"] != since_id\<close> reads \<open>note["id"]\<close> only when
  \<open>since_id\<close> is not \<open>None\<close>; \<open>!=\<close> is the negation of \<open>==\<close> on decoded values.
\<close>

fun stream_batch ::
  "world \<Rightarrow> (note_dict \<Rightarrow> state \<Rightarrow> (exn + unit) \<times> state) \<Rightarrow> note_dict list \<Rightarrow> json \<Rightarrow> state
     \<Rightarrow> (exn + json) \<times> state" where
  "stream_batch w body [] since st = (Inr since, st)"
| "stream_batch w body (n # ns) since st =
     (case (if since = JNull then Inr True
            else (case subscript n ''id'' of
                    Inl e \<Rightarrow> Inl e
                  | Inr i \<Rightarrow> Inr (\<not> py_eq i since))) of
        Inl e \<Rightarrow> (Inl e, st)
      | Inr False \<Rightarrow> stream_batch w body ns since st
      | Inr True \<Rightarrow>
          (case body n (emit w (Yield n) st) of
             (Inl e, st1) \<Rightarrow> (Inl e, st1)
           | (Inr _, st1) \<Rightarrow>
               (case subscript n ''id'' of
                  Inl e \<Rightarrow> (Inl e, st1)
                | Inr i \<Rightarrow> stream_batch w body ns i st1)))"

text \<open>
  How a run of the streaming loop ends: the generator returns because the flag is
  down, an exception leaves the loop, or the model's bound on the number of polls is
  reached while the loop is still going.
\<close>

datatype outcome = Finished state | Raised exn state | OutOfFuel state

fun outcome_state :: "outcome \<Rightarrow> state" where
  "outcome_state (Finished st) = st"
| "outcome_state (Raised e st) = st"
| "outcome_state (OutOfFuel st) = st"

text \<open>
  \<open>stream_notes\<close>: the \<open>while self._running\<close> loop; the first argument bounds the
  number of iterations. The flag is read by the \<open>while\<close> test and nowhere else; a
  signal that arrives after the test (\<open>deliver\<close>) does not stop the iteration that has
  begun. Only \<open>RequestException\<close> is caught, and only the fetch can raise inside the
  \<open>try\<close> (the consumer's exceptions do not pass through the generator).
\<close>

fun stream_notes ::
  "nat \<Rightarrow> world \<Rightarrow> (note_dict \<Rightarrow> state \<Rightarrow> (exn + unit) \<times> state) \<Rightarrow> json \<Rightarrow> json \<Rightarrow> state
     \<Rightarrow> outcome" where
  "stream_notes 0 w body user_id since st =
     (if \<not> running st then Finished st else OutOfFuel st)"
| "stream_notes (Suc k) w body user_id since st =
     (if \<not> running st then Finished st
      else
        (case get_user_notes w user_id 10 since (deliver w st) of
           (Inl e, st1) \<Rightarrow>
             (if is_RequestException e
              then stream_notes k w body user_id since
                     (emit w (Sleep 30) (emit w (Print (StreamError e)) st1))
              else Raised e st1)
         | (Inr notes, st1) \<Rightarrow>
             (case stream_batch w body notes since st1 of
                (Inl e, st2) \<Rightarrow> Raised e st2
              | (Inr since', st2) \<Rightarrow>
                  stream_notes k w body user_id since' (emit w (Sleep 5) st2))))"

text \<open>
  The \<open>for\<close> statement of \<open>main\<close> (lines 364 to 396): \<open>stream_notes\<close> consumed by the
  loop body, for a Misskey client whose \<open>instance\<close> attribute is \<open>inst\<close>.
\<close>

definition main_loop :: "nat \<Rightarrow> world \<Rightarrow> string \<Rightarrow> config \<Rightarrow> state \<Rightarrow> outcome" where
  "main_loop k w inst cfg st =
     stream_notes k w (handle_note w inst (crosspost_delay cfg))
       (misskey_user_id cfg) (since_id cfg) st"

section \<open>Configuration loading\<close>

text \<open>
  What \<open>load_config\<close> reads: the process environment, the files it opens and decodes
  (\<open>read_json path\<close> is the outcome of \<open>open\<close> followed by \<open>json.load\<close>), and
  Python's \<open>int\<close> on a string (\<open>None\<close> where it raises \<open>ValueError\<close>).
\<close>

record host =
  environ :: "(string \<times> string) list"
  read_json :: "string \<Rightarrow> exn + json"
  py_int :: "string \<Rightarrow> int option"

definition environ_get :: "host \<Rightarrow> string \<Rightarrow> json" where
  "environ_get h k = (case map_of (environ h) k of None \<Rightarrow> JNull | Some v \<Rightarrow> JStr v)"

definition environ_get_default :: "host \<Rightarrow> string \<Rightarrow> string \<Rightarrow> string" where
  "environ_get_default h k dflt = (case map_of (environ h) k of None \<Rightarrow> dflt | Some v \<Rightarrow> v)"

definition required_fields :: "string list" where
  "required_fields =
     [''misskey_instance'', ''misskey_token'', ''misskey_user_id'',
      ''mastodon_instance'', ''mastodon_token'']"

text \<open>The fields of the dataclass \<open>Config\<close>: the keywords its constructor accepts.\<close>

definition config_fields :: "string list" where
  "config_fields = required_fields @ [''fetch_limit'', ''since_id'', ''crosspost_delay'']"

text \<open>\<open>d[k] = v\<close>: an existing key keeps its place.\<close>

definition dict_set :: "dict \<Rightarrow> string \<Rightarrow> json \<Rightarrow> dict" where
  "dict_set d k v =
     (if k \<in> fst ` set d
      then map (\<lambda>p. if fst p = k then (k, v) else p) d
      else d @ [(k, v)])"

text \<open>\<open>d.items()\<close>: every key once, with the value that \<open>d[k]\<close> reads.\<close>

definition items :: "dict \<Rightarrow> (string \<times> json) list" where
  "items d = map (\<lambda>k. (k, get d k)) (remdups (map fst d))"

fun join :: "string \<Rightarrow> string list \<Rightarrow> string" where
  "join sep [] = []"
| "join sep [x] = x"
| "join sep (x # y # zs) = x @ sep @ join sep (y # zs)"

text \<open>
  The dictionary built from the environment. The two \<open>int\<close> conversions are part of
  the dictionary display and raise before anything else is looked at.
\<close>

definition env_config :: "host \<Rightarrow> exn + dict" where
  "env_config h =
     (case py_int h (environ_get_default h ''FETCH_LIMIT'' ''20'') of
        None \<Rightarrow> Inl (ValueError ''invalid literal for int()'')
      | Some fl \<Rightarrow>
          (case py_int h (environ_get_default h ''CROSSPOST_DELAY'' ''2'') of
             None \<Rightarrow> Inl (ValueError ''invalid literal for int()'')
           | Some cd \<Rightarrow>
               Inr [(''misskey_instance'', environ_get h ''MISSKEY_INSTANCE''),
                    (''misskey_token'', environ_get h ''MISSKEY_TOKEN''),
                    (''misskey_user_id'', environ_get h ''MISSKEY_USER_ID''),
                    (''mastodon_instance'', environ_get h ''MASTODON_INSTANCE''),
                    (''mastodon_token'', environ_get h ''MASTODON_TOKEN''),
                    (''fetch_limit'', JNum fl),
                    (''crosspost_delay'', JNum cd)]))"

definition missing_in :: "dict \<Rightarrow> string list" where
  "missing_in config_dict = filter (\<lambda>field. get config_dict field = JNull) required_fields"

text \<open>
  The loop \<open>for key, value in file_config.items()\<close>: every key of the file whose
  entry in \<open>config_dict\<close> is missing or \<open>None\<close> is copied, whatever the key is.
\<close>

definition update_from_file :: "dict \<Rightarrow> dict \<Rightarrow> dict" where
  "update_from_file config_dict file_config =
     foldl (\<lambda>cd kv. if get cd (fst kv) = JNull then dict_set cd (fst kv) (snd kv) else cd)
       config_dict (items file_config)"

text \<open>
  The \<open>try\<close> around the config file: \<open>FileNotFoundError\<close> and \<open>JSONDecodeError\<close> are
  printed and passed over, any other exception leaves \<open>load_config\<close>; so does the
  \<open>AttributeError\<close> of \<open>.items()\<close> on a decoded value that is not an object.
\<close>

definition consult_file :: "host \<Rightarrow> dict \<Rightarrow> (exn + dict) \<times> log_msg list" where
  "consult_file h config_dict =
     (case read_json h (environ_get_default h ''CONFIG_FILE'' ''config.json'') of
        Inr (JObj file_config) \<Rightarrow> (Inr (update_from_file config_dict file_config), [])
      | Inr _ \<Rightarrow> (Inl AttributeError, [])
      | Inl FileNotFoundError \<Rightarrow> (Inr config_dict, [ConfigFileError FileNotFoundError])
      | Inl JSONDecodeError \<Rightarrow> (Inr config_dict, [ConfigFileError JSONDecodeError])
      | Inl e \<Rightarrow> (Inl e, []))"

text \<open>Reading \<open>since_id\<close> from the state file.\<close>

definition load_since_id :: "host \<Rightarrow> exn + json" where
  "load_since_id h =
     (case read_json h ''crosspost_state.json'' of
        Inr (JObj state) \<Rightarrow> Inr (get state ''since_id'')
      | Inr _ \<Rightarrow> Inl AttributeError
      | Inl FileNotFoundError \<Rightarrow> Inr JNull
      | Inl JSONDecodeError \<Rightarrow> Inr JNull
      | Inl e \<Rightarrow> Inl e)"

text \<open>
  \<open>Config(**config_dict)\<close>: a keyword that is not a field is a \<open>TypeError\<close>. The two
  integers are the ones \<open>env_config\<close> stored (their entries are never \<open>None\<close>, so the
  file cannot replace them).
\<close>

definition int_field :: "dict \<Rightarrow> string \<Rightarrow> int" where
  "int_field d k = (case get d k of JNum i \<Rightarrow> i | _ \<Rightarrow> 0)"

definition make_config :: "dict \<Rightarrow> exn + config" where
  "make_config d =
     (if list_all (\<lambda>k. k \<in> set config_fields) (map fst d)
      then Inr \<lparr>misskey_instance = get d ''misskey_instance'',
                misskey_token = get d ''misskey_token'',
                misskey_user_id = get d ''misskey_user_id'',
                mastodon_instance = get d ''mastodon_instance'',
                mastodon_token = get d ''mastodon_token'',
                fetch_limit = int_field d ''fetch_limit'',
                since_id = get d ''since_id'',
                crosspost_delay = int_field d ''crosspost_delay''\<rparr>
      else Inl TypeError)"

definition missing_message :: "string list \<Rightarrow> string" where
  "missing_message missing_fields =
     ''Missing required configuration: '' @ join '', '' missing_fields"

definition load_config :: "host \<Rightarrow> (exn + config) \<times> log_msg list" where
  "load_config h =
     (case env_config h of
        Inl e \<Rightarrow> (Inl e, [])
      | Inr config_dict \<Rightarrow>
          (case (if missing_in config_dict \<noteq> [] then consult_file h config_dict
                 else (Inr config_dict, [])) of
             (Inl e, out) \<Rightarrow> (Inl e, out)
           | (Inr config_dict1, out) \<Rightarrow>
               (if missing_in config_dict1 \<noteq> []
                then (Inl (ValueError (missing_message (missing_in config_dict1))), out)
                else
                  (case load_since_id h of
                     Inl e \<Rightarrow> (Inl e, out)
                   | Inr sid \<Rightarrow> (make_config (dict_set config_dict1 ''since_id'' sid), out)))))"

section \<open>The specification's view of a post\<close>

text \<open>
  The specification describes a post by typed fields: optional reply and renote
  targets, a set of mentions, an optional body text. These read them off the decoded
  note; a field is absent when its key is missing or its value is \<open>null\<close>.
\<close>

definition present :: "note_dict \<Rightarrow> string \<Rightarrow> bool" where
  "present n k = (case map_of n k of None \<Rightarrow> False | Some v \<Rightarrow> v \<noteq> JNull)"

definition mention_list :: "note_dict \<Rightarrow> json list" where
  "mention_list n = (case map_of n ''mentions'' of Some (JArr ms) \<Rightarrow> ms | _ \<Rightarrow> [])"

definition body_text :: "note_dict \<Rightarrow> string option" where
  "body_text n = (case map_of n ''text'' of Some (JStr s) \<Rightarrow> Some s | _ \<Rightarrow> None)"

definition body_has_at :: "note_dict \<Rightarrow> bool" where
  "body_has_at n = (case body_text n of None \<Rightarrow> False | Some s \<Rightarrow> CHR ''@'' \<in> set s)"

text \<open>
  A note is well typed when its mentions are a list (or absent) and its text is a
  string (or absent), as the Misskey API delivers them.
\<close>

definition well_typed :: "note_dict \<Rightarrow> bool" where
  "well_typed n =
     ((case get n ''mentions'' of JNull \<Rightarrow> True | JArr _ \<Rightarrow> True | _ \<Rightarrow> False) \<and>
      (case get n ''text'' of JNull \<Rightarrow> True | JStr _ \<Rightarrow> True | _ \<Rightarrow> False))"

section \<open>Reading a trace\<close>

text \<open>
  The identifier of a note, and the notes the feed is expected to deliver: well typed,
  with a string identifier.
\<close>

definition note_id :: "note_dict \<Rightarrow> json" where
  "note_id n = get n ''id''"

definition str_id :: "note_dict \<Rightarrow> string" where
  "str_id n = (case map_of n ''id'' of Some (JStr s) \<Rightarrow> s | _ \<Rightarrow> [])"

definition feed_note :: "note_dict \<Rightarrow> bool" where
  "feed_note n =
     (well_typed n \<and> (case map_of n ''id'' of Some (JStr _) \<Rightarrow> True | _ \<Rightarrow> False))"

text \<open>Projections of a trace onto the events a property is about.\<close>

fun is_fetch :: "event \<Rightarrow> bool" where
  "is_fetch (Fetch _ _ _ _) = True"
| "is_fetch _ = False"

fun is_cursor_step :: "event \<Rightarrow> bool" where
  "is_cursor_step (Yield _) = True"
| "is_cursor_step (SaveState _) = True"
| "is_cursor_step _ = False"

definition cursor_steps :: "event list \<Rightarrow> event list" where
  "cursor_steps evs = filter is_cursor_step evs"

fun yielded :: "event list \<Rightarrow> note_dict list" where
  "yielded [] = []"
| "yielded (Yield n # evs) = n # yielded evs"
| "yielded (_ # evs) = yielded evs"

text \<open>
  The notes of a batch whose identifier differs from the cursor that is current when
  the note is reached: the cursor given to the loop for the first note, the identifier
  of the note before it for any later one. On the string identifiers of feed notes,
  to differ is to be unequal for \<open>!=\<close>.
\<close>

definition passed :: "json \<Rightarrow> note_dict list \<Rightarrow> note_dict list" where
  "passed since batch =
     map snd (filter (\<lambda>p. note_id (snd p) \<noteq> fst p) (zip (since # map note_id batch) batch))"

text \<open>
  The events that crossposting one note can add to the trace, and the relation between
  the states before and after a step that adds only such events: the state file and
  \<open>config.since_id\<close> are untouched, and the flag goes down exactly when the handler ran.
\<close>

fun cross_event :: "event \<Rightarrow> bool" where
  "cross_event (Fetch _ _ _ _) = False"
| "cross_event (Yield _) = False"
| "cross_event (SaveState _) = False"
| "cross_event _ = True"

definition crossposting :: "state \<Rightarrow> state \<Rightarrow> bool" where
  "crossposting st st' =
     (\<exists>evs. trace st' = trace st @ evs \<and> list_all cross_event evs \<and>
            saved st' = saved st \<and> since_cfg st' = since_cfg st \<and>
            running st' = (running st \<and> Signal \<notin> set evs))"

text \<open>
  A step of the consumer or of the generator's inner loop: it adds events, none of
  them a fetch, and the flag goes down exactly when the handler ran.
\<close>

definition advancing :: "state \<Rightarrow> state \<Rightarrow> bool" where
  "advancing st st' =
     (\<exists>evs. trace st' = trace st @ evs \<and> list_all (\<lambda>e. \<not> is_fetch e) evs \<and>
            running st' = (running st \<and> Signal \<notin> set evs))"

text \<open>No fetch is recorded after a run of the signal handler.\<close>

fun no_fetch_after_signal :: "event list \<Rightarrow> bool" where
  "no_fetch_after_signal [] = True"
| "no_fetch_after_signal (e # evs) =
     (if e = Signal then list_all (\<lambda>x. \<not> is_fetch x) evs else no_fetch_after_signal evs)"

text \<open>The number of fetches recorded after the first run of the signal handler.\<close>

fun fetches_after_signal :: "event list \<Rightarrow> nat" where
  "fetches_after_signal [] = 0"
| "fetches_after_signal (e # evs) =
     (if e = Signal then length (filter is_fetch evs) else fetches_after_signal evs)"

text \<open>The seconds slept after the first run of the signal handler.\<close>

fun sleep_total :: "event list \<Rightarrow> int" where
  "sleep_total [] = 0"
| "sleep_total (Sleep s # evs) = s + sleep_total evs"
| "sleep_total (_ # evs) = sleep_total evs"

fun slept_after_signal :: "event list \<Rightarrow> int" where
  "slept_after_signal [] = 0"
| "slept_after_signal (e # evs) =
     (if e = Signal then sleep_total evs else slept_after_signal evs)"

text \<open>The interval of \<open>stream_notes\<close> between two polls, in seconds.\<close>

definition poll_interval :: int where
  "poll_interval = 5"

text \<open>
  What a trace says about attachments and statuses: the URLs requested, the downloads
  that succeeded, the files offered for upload, the media identifiers the uploads
  returned, the status-creation calls, and the notes reported as crossposted or failed.
\<close>

fun requested1 :: "event \<Rightarrow> string list" where
  "requested1 (Download u r) = [u]"
| "requested1 _ = []"

definition requested :: "event list \<Rightarrow> string list" where
  "requested evs = concat (map requested1 evs)"

fun fetched1 :: "event \<Rightarrow> (string \<times> string \<times> string) list" where
  "fetched1 (Download u (Inr c)) = [c]"
| "fetched1 _ = []"

definition fetched :: "event list \<Rightarrow> (string \<times> string \<times> string) list" where
  "fetched evs = concat (map fetched1 evs)"

fun offered1 :: "event \<Rightarrow> (string \<times> string \<times> string) list" where
  "offered1 (Upload c f m d r) = [(c, f, m)]"
| "offered1 _ = []"

definition offered :: "event list \<Rightarrow> (string \<times> string \<times> string) list" where
  "offered evs = concat (map offered1 evs)"

fun uploaded1 :: "event \<Rightarrow> json list" where
  "uploaded1 (Upload c f m d (Inr media)) =
     (case map_of media ''id'' of None \<Rightarrow> [] | Some i \<Rightarrow> [i])"
| "uploaded1 _ = []"

definition uploaded_ids :: "event list \<Rightarrow> json list" where
  "uploaded_ids evs = concat (map uploaded1 evs)"

fun status_call1 :: "event \<Rightarrow> (json \<times> json list \<times> string \<times> json) list" where
  "status_call1 (CreateStatus t ms v s r) = [(t, ms, v, s)]"
| "status_call1 _ = []"

definition status_calls :: "event list \<Rightarrow> (json \<times> json list \<times> string \<times> json) list" where
  "status_calls evs = concat (map status_call1 evs)"

fun outcome1 :: "event \<Rightarrow> json list" where
  "outcome1 (Print (CrosspostOk i)) = [i]"
| "outcome1 (Print (CrosspostError i e)) = [i]"
| "outcome1 _ = []"

definition outcome_ids :: "event list \<Rightarrow> json list" where
  "outcome_ids evs = concat (map outcome1 evs)"

text \<open>
  The events that transferring attachments can add, and the steps that add only those.
\<close>

fun transfer_event :: "event \<Rightarrow> bool" where
  "transfer_event (Download _ _) = True"
| "transfer_event (Upload _ _ _ _ _) = True"
| "transfer_event (Sleep _) = True"
| "transfer_event (Print (FileError _ _)) = True"
| "transfer_event Signal = True"
| "transfer_event _ = False"

definition transferring :: "state \<Rightarrow> state \<Rightarrow> bool" where
  "transferring st st' = (\<exists>evs. trace st' = trace st @ evs \<and> list_all transfer_event evs)"

text \<open>
  An attachment descriptor as the feed delivers it: a dictionary with a string URL.
  \<open>file_url\<close> is the URL that is requested for it.
\<close>

definition attachment :: "json \<Rightarrow> bool" where
  "attachment f =
     (case f of
        JObj d \<Rightarrow> (case map_of d ''url'' of Some (JStr _) \<Rightarrow> True | _ \<Rightarrow> False)
      | _ \<Rightarrow> False)"

definition file_url :: "string \<Rightarrow> json \<Rightarrow> string" where
  "file_url inst f =
     (case f of
        JObj d \<Rightarrow> (case map_of d ''url'' of Some (JStr u) \<Rightarrow> absolute_url inst u | _ \<Rightarrow> [])
      | _ \<Rightarrow> [])"

section \<open>Example inputs\<close>

text \<open>
  A world in which the feed is empty, attachments cannot be transferred, statuses are
  accepted and no signal arrives; the examples override what they need. \<open>start c\<close> is
  the state of a process that has just loaded the cursor \<open>c\<close> from the state file.
\<close>

definition silent :: world where
  "silent =
     \<lparr>notes_resp = (\<lambda>_. Inr []),
      download_resp = (\<lambda>_. Inl (RequestException ''unreachable'')),
      upload_resp = (\<lambda>_. Inl (RequestException ''unreachable'')),
      status_resp = (\<lambda>_. Inr []),
      signal_at = (\<lambda>_. False),
      signal_before = (\<lambda>_. False)\<rparr>"

definition start :: "json \<Rightarrow> state" where
  "start c = \<lparr>trace = [], running = True, since_cfg = c, saved = c\<rparr>"

definition plain_note :: "string \<Rightarrow> note_dict" where
  "plain_note i =
     [(''id'', JStr i), (''replyId'', JNull), (''renoteId'', JNull), (''mentions'', JArr []),
      (''text'', JStr ''hello world''), (''visibility'', JStr ''home''), (''cw'', JNull)]"

text \<open>
  The first fetch times out and later ones return an empty batch; a world in which a
  signal arrives right after the loop has first found its flag up, before the first
  request; and the same world with a feed in which every fetch times out.
\<close>

definition flaky :: world where
  "flaky = silent\<lparr>notes_resp := (\<lambda>i. if i = 0 then Inl (RequestException ''timeout'') else Inr [])\<rparr>"

definition stop_requested :: world where
  "stop_requested = silent\<lparr>signal_before := (\<lambda>i. i = 0)\<rparr>"

definition interrupted :: world where
  "interrupted = stop_requested\<lparr>notes_resp := (\<lambda>_. Inl (RequestException ''timeout''))\<rparr>"

text \<open>A feed that returns two notes, oldest first, and a configuration for both modes.\<close>

definition two_notes :: world where
  "two_notes = silent\<lparr>notes_resp := (\<lambda>_. Inr [plain_note ''1'', plain_note ''2''])\<rparr>"

definition example_config :: config where
  "example_config =
     \<lparr>misskey_instance = JStr ''https://mk.example/'', misskey_token = JStr ''t1'',
      misskey_user_id = JStr ''u'', mastodon_instance = JStr ''https://md.example'',
      mastodon_token = JStr ''t2'', fetch_limit = 20, since_id = JNull, crosspost_delay = 2\<rparr>"

text \<open>
  The attachment list of a note, and the notes whose \<open>files\<close> entry is absent or a
  list of attachment descriptors.
\<close>

definition note_files :: "note_dict \<Rightarrow> json list" where
  "note_files n = (case get n ''files'' of JArr fs \<Rightarrow> fs | _ \<Rightarrow> [])"

definition files_ok :: "note_dict \<Rightarrow> bool" where
  "files_ok n =
     (case get n ''files'' of JNull \<Rightarrow> True | JArr fs \<Rightarrow> list_all attachment fs | _ \<Rightarrow> False)"

text \<open>The first step of \<open>crosspost_body\<close>: collecting the media identifiers.\<close>

definition files_step ::
  "world \<Rightarrow> string \<Rightarrow> note_dict \<Rightarrow> state \<Rightarrow> (exn + json list) \<times> state" where
  "files_step w inst n st =
     (if truthy (get n ''files'') then process_note_files w inst (get n ''files'') st
      else (Inr [], st))"

definition eligible :: "note_dict \<Rightarrow> bool" where
  "eligible n = (should_crosspost n = Inr True)"






text \<open>
  A note with a content warning; and a world in which the first status creation is
  refused (it is the event at position 0 or 1) and the later ones are accepted.
\<close>

definition cw_note :: note_dict where
  "cw_note =
     [(''id'', JStr ''9''), (''text'', JStr ''plot twist''), (''cw'', JStr ''spoilers''),
      (''visibility'', JStr ''followers'')]"


section \<open>The specification's view of the configuration\<close>

text \<open>
  A required field is available when its environment variable is set, or when the
  config file decodes to an object that gives it a value other than \<open>null\<close>.
\<close>

definition env_name :: "string \<Rightarrow> string" where
  "env_name field =
     (case map_of [(''misskey_instance'', ''MISSKEY_INSTANCE''),
                   (''misskey_token'', ''MISSKEY_TOKEN''),
                   (''misskey_user_id'', ''MISSKEY_USER_ID''),
                   (''mastodon_instance'', ''MASTODON_INSTANCE''),
                   (''mastodon_token'', ''MASTODON_TOKEN'')] field of
        None \<Rightarrow> [] | Some v \<Rightarrow> v)"

definition config_path :: "host \<Rightarrow> string" where
  "config_path h = environ_get_default h ''CONFIG_FILE'' ''config.json''"

definition file_value :: "host \<Rightarrow> string \<Rightarrow> json" where
  "file_value h field =
     (case read_json h (config_path h) of Inr (JObj d) \<Rightarrow> get d field | _ \<Rightarrow> JNull)"

definition available :: "host \<Rightarrow> string \<Rightarrow> bool" where
  "available h field =
     (map_of (environ h) (env_name field) \<noteq> None \<or> file_value h field \<noteq> JNull)"

definition missing_fields :: "host \<Rightarrow> string list" where
  "missing_fields h = filter (\<lambda>field. \<not> available h field) required_fields"

text \<open>
  A file that is missing, that does not decode, or that decodes to an object; and the
  keys of the config file.
\<close>

definition readable :: "exn + json \<Rightarrow> bool" where
  "readable r =
     (case r of
        Inl FileNotFoundError \<Rightarrow> True
      | Inl JSONDecodeError \<Rightarrow> True
      | Inr (JObj _) \<Rightarrow> True
      | _ \<Rightarrow> False)"

definition file_keys :: "host \<Rightarrow> string list" where
  "file_keys h = (case read_json h (config_path h) of Inr (JObj d) \<Rightarrow> map fst d | _ \<Rightarrow> [])"

text \<open>
  A host with an empty environment whose config file gives the five required fields
  and a comment.
\<close>

definition commented_host :: host where
  "commented_host =
     \<lparr>environ = [],
      read_json =
        (\<lambda>p. if p = ''config.json''
             then Inr (JObj [(''misskey_instance'', JStr ''https://mk.example''),
                             (''misskey_token'', JStr ''t1''),
                             (''misskey_user_id'', JStr ''u''),
                             (''mastodon_instance'', JStr ''https://md.example''),
                             (''mastodon_token'', JStr ''t2''),
                             (''comment'', JStr ''my bot'')])
             else Inl FileNotFoundError),
      py_int = (\<lambda>s. if s = ''20'' then Some 20 else if s = ''2'' then Some 2 else None)\<rparr>"

text \<open>A host that sets two of the required fields and has no config file.\<close>

definition partial_host :: host where
  "partial_host =
     \<lparr>environ = [(''MISSKEY_INSTANCE'', ''https://mk.example''), (''MASTODON_TOKEN'', ''t2'')],
      read_json = (\<lambda>p. Inl FileNotFoundError),
      py_int = (\<lambda>s. if s = ''20'' then Some 20 else if s = ''2'' then Some 2 else None)\<rparr>"

text \<open>A host that sets all five required fields in the environment.\<close>

definition complete_host :: host where
  "complete_host =
     \<lparr>environ = [(''MISSKEY_INSTANCE'', ''https://mk.example''), (''MISSKEY_TOKEN'', ''t1''),
                 (''MISSKEY_USER_ID'', ''u''), (''MASTODON_INSTANCE'', ''https://md.example''),
                 (''MASTODON_TOKEN'', ''t2'')],
      read_json =
        (\<lambda>p. if p = ''crosspost_state.json'' then Inr (JObj [(''since_id'', JStr ''5'')])
             else Inl FileNotFoundError),
      py_int = (\<lambda>s. if s = ''20'' then Some 20 else if s = ''2'' then Some 2 else None)\<rparr>"

section \<open>Verified properties\<close>

subsection \<open>Visibility mapper\<close>

text \<open>
  Claim C7. \<open>misskey_to_mastodon_visibility\<close> is a function on strings (so it is total
  and deterministic) that maps \<open>public\<close> to \<open>public\<close>, \<open>followers\<close> to \<open>private\<close>,
  \<open>specified\<close> to \<open>direct\<close>, \<open>home\<close> to \<open>unlisted\<close>, and every other string to
  \<open>public\<close>.
\<close>

theorem visibility_mapping:
  "misskey_to_mastodon_visibility ''public'' = ''public'' \<and>
   misskey_to_mastodon_visibility ''followers'' = ''private'' \<and>
   misskey_to_mastodon_visibility ''specified'' = ''direct'' \<and>
   misskey_to_mastodon_visibility ''home'' = ''unlisted'' \<and>
   misskey_to_mastodon_visibility v =
     (if v = ''followers'' then ''private''
      else if v = ''specified'' then ''direct''
      else if v = ''home'' then ''unlisted''
      else ''public'')"
  by (simp add: misskey_to_mastodon_visibility_def visibility_map_def)

subsection \<open>Eligibility filter\<close>

lemma mentions_cond_well_typed:
  "well_typed n \<Longrightarrow> mentions_cond n = Inr (mention_list n \<noteq> [])"
  unfolding well_typed_def mentions_cond_def mention_list_def get_def
  by (auto split: option.splits json.splits)

lemma text_cond_well_typed:
  "well_typed n \<Longrightarrow> text_cond n = Inr (body_has_at n)"
  unfolding well_typed_def text_cond_def body_has_at_def body_text_def get_def get_default_def
  by (auto split: option.splits json.splits)

lemma get_present: "(get n k \<noteq> JNull) = present n k"
  by (simp add: get_def present_def split: option.splits)

lemma should_crosspost_well_typed:
  assumes "well_typed n"
  shows "should_crosspost n =
           Inr (\<not> (present n ''replyId'' \<or> present n ''renoteId'' \<or>
                    mention_list n \<noteq> [] \<or> body_has_at n))"
  unfolding should_crosspost_def get_present
  by (simp add: mentions_cond_well_typed [OF assms] text_cond_well_typed [OF assms]
        split: bool.splits)

text \<open>
  Claim C2. On every well-typed note, \<open>should_crosspost\<close> returns (it does not raise),
  and it returns false exactly when the reply target is present, or the renote target
  is present, or the mention list is not empty, or the body text is present and
  contains \<open>@\<close>; it returns true when none of the four holds.
\<close>

theorem should_crosspost_iff:
  assumes "well_typed n"
  shows "should_crosspost n =
           Inr (\<not> (present n ''replyId'' \<or> present n ''renoteId'' \<or>
                    mention_list n \<noteq> [] \<or> body_has_at n))"
  using assms by (rule should_crosspost_well_typed)

theorem should_crosspost_iff_witness:
  "well_typed [(''id'', JStr ''a1''), (''replyId'', JNull), (''renoteId'', JNull),
               (''mentions'', JArr []), (''text'', JStr ''hello world''),
               (''visibility'', JStr ''home''), (''cw'', JNull)] \<and>
   should_crosspost [(''id'', JStr ''a1''), (''replyId'', JNull), (''renoteId'', JNull),
               (''mentions'', JArr []), (''text'', JStr ''hello world''),
               (''visibility'', JStr ''home''), (''cw'', JNull)] = Inr True \<and>
   well_typed [(''id'', JStr ''a2''), (''text'', JStr ''hi @bob''), (''mentions'', JArr [])] \<and>
   should_crosspost [(''id'', JStr ''a2''), (''text'', JStr ''hi @bob''), (''mentions'', JArr [])]
     = Inr False"
proof -
  let ?n1 = "[(''id'', JStr ''a1''), (''replyId'', JNull), (''renoteId'', JNull),
               (''mentions'', JArr []), (''text'', JStr ''hello world''),
               (''visibility'', JStr ''home''), (''cw'', JNull)]"
  let ?n2 = "[(''id'', JStr ''a2''), (''text'', JStr ''hi @bob''), (''mentions'', JArr [])]"
  have w1: "well_typed ?n1" by (simp add: well_typed_def get_def)
  have w2: "well_typed ?n2" by (simp add: well_typed_def get_def)
  have "should_crosspost ?n1 = Inr True"
    using should_crosspost_iff [OF w1]
    by (simp add: present_def mention_list_def body_has_at_def body_text_def)
  moreover have "should_crosspost ?n2 = Inr False"
    using should_crosspost_iff [OF w2]
    by (simp add: present_def mention_list_def body_has_at_def body_text_def)
  ultimately show ?thesis using w1 w2 by simp
qed


subsection \<open>What a step adds to the trace\<close>

lemma crossposting_refl: "crossposting st st"
  by (simp add: crossposting_def)

lemma crossposting_trans:
  "crossposting a b \<Longrightarrow> crossposting b c \<Longrightarrow> crossposting a c"
  unfolding crossposting_def
  by (elim exE conjE, rule_tac x="evs @ evsa" in exI) auto

lemma crossposting_emit: "cross_event e \<Longrightarrow> e \<noteq> Signal \<Longrightarrow> crossposting st (emit w e st)"
  by (auto simp: crossposting_def emit_def)


lemma cp_download: "download_attachment w inst u st = (r, st') \<Longrightarrow> crossposting st st'"
  by (auto simp: download_attachment_def Let_def crossposting_refl crossposting_emit split: json.splits)

lemma cp_upload: "upload_media w c f m d st = (r, st') \<Longrightarrow> crossposting st st'"
  by (auto simp: upload_media_def Let_def crossposting_refl crossposting_emit)

lemma cp_create_status: "create_status w t ms v s st = (r, st') \<Longrightarrow> crossposting st st'"
  by (auto simp: create_status_def Let_def crossposting_refl crossposting_emit)

lemma cp_sleep: "sleep w d st = (r, st') \<Longrightarrow> crossposting st st'"
  by (auto simp: sleep_def crossposting_refl crossposting_emit split: if_splits)

lemma cp_then_emit:
  "crossposting a b \<Longrightarrow> cross_event e \<Longrightarrow> e \<noteq> Signal \<Longrightarrow> crossposting a (emit w e b)"
  by (blast intro: crossposting_trans crossposting_emit)

lemma cp_transfer_file: "transfer_file w inst d st = (r, st') \<Longrightarrow> crossposting st st'"
  unfolding transfer_file_def
  by (auto split: sum.splits prod.splits dest!: cp_download cp_upload
       intro: crossposting_refl cp_then_emit crossposting_trans)

lemma cp_process_files_from:
  "process_files_from w inst fs ids st = (r, st') \<Longrightarrow> crossposting st st'"
proof (induction fs arbitrary: ids st)
  case Nil
  then show ?case by (simp add: crossposting_refl)
next
  case (Cons f fs)
  show ?case
  proof (cases f)
    case (JObj d)
    obtain r1 st1 where t: "transfer_file w inst d st = (r1, st1)" by force
    have c1: "crossposting st st1" using cp_transfer_file [OF t] .
    show ?thesis
    proof (cases r1)
      case (Inl e)
      let ?st2 = "emit w (Print (FileError (get_default d ''name'' (JStr ''unknown'')) e)) st1"
      have "process_files_from w inst fs ids ?st2 = (r, st')"
        using Cons.prems JObj t Inl by simp
      from Cons.IH [OF this] have "crossposting ?st2 st'" .
      moreover have "crossposting st1 ?st2" by (simp add: crossposting_emit)
      ultimately show ?thesis using c1 by (blast intro: crossposting_trans)
    next
      case (Inr mid)
      have "process_files_from w inst fs (ids @ [mid]) st1 = (r, st')"
        using Cons.prems JObj t Inr by simp
      from Cons.IH [OF this] show ?thesis using c1 by (blast intro: crossposting_trans)
    qed
  qed (use Cons.prems in \<open>auto simp: crossposting_refl\<close>)
qed


lemma cp_process_misskey_files:
  "process_misskey_files w inst fs st = (r, st') \<Longrightarrow> crossposting st st'"
  unfolding process_misskey_files_def by (rule cp_process_files_from)

lemma cp_process_note_files:
  "process_note_files w inst files st = (r, st') \<Longrightarrow> crossposting st st'"
  unfolding process_note_files_def
  by (auto split: json.splits dest!: cp_process_misskey_files intro: crossposting_refl)

lemma cp_emit_print: "crossposting st (emit w (Print m) st)"
  by (simp add: crossposting_emit)

lemma cp_crosspost_body:
  "crosspost_body w inst delay n st = (r, st') \<Longrightarrow> crossposting st st'"
  unfolding crosspost_body_def
  apply (auto split: sum.splits prod.splits if_splits
        dest!: cp_process_note_files cp_create_status cp_sleep
        intro: crossposting_refl)
  apply (blast intro: crossposting_trans cp_emit_print)+
  done

lemma cp_crosspost_note:
  "crosspost_note w inst delay n st = (r, st') \<Longrightarrow> crossposting st st'"
  unfolding crosspost_note_def
  by (auto split: sum.splits prod.splits dest!: cp_crosspost_body
        intro: crossposting_refl cp_then_emit crossposting_trans)

lemma crosspost_note_no_raise:
  "map_of n ''id'' = Some i \<Longrightarrow> fst (crosspost_note w inst delay n st) = Inr ()"
  unfolding crosspost_note_def
  by (auto split: sum.splits prod.splits simp: subscript_def)


lemma cross_no_fetch: "list_all cross_event evs \<Longrightarrow> list_all (\<lambda>e. \<not> is_fetch e) evs"
  by (induction evs) (auto elim: cross_event.elims)

lemma cross_event_not_cursor_step: "cross_event e \<Longrightarrow> \<not> is_cursor_step e"
  by (cases e) auto

lemma cursor_steps_cross: "list_all cross_event evs \<Longrightarrow> cursor_steps evs = []"
  by (induction evs) (auto simp: cursor_steps_def cross_event_not_cursor_step)

lemma cursor_steps_simps [simp]:
  "cursor_steps [] = []"
  "cursor_steps (e # es) = (if is_cursor_step e then e # cursor_steps es else cursor_steps es)"
  by (simp_all add: cursor_steps_def)

lemma cursor_steps_append [simp]: "cursor_steps (a @ b) = cursor_steps a @ cursor_steps b"
  by (simp add: cursor_steps_def)

lemma feed_note_id: "feed_note n \<Longrightarrow> \<exists>s. map_of n ''id'' = Some (JStr s) \<and> note_id n = JStr s"
  by (auto simp: feed_note_def note_id_def get_def split: option.splits json.splits)

lemma feed_note_should: "feed_note n \<Longrightarrow> \<exists>b. should_crosspost n = Inr b"
  using should_crosspost_well_typed [of n] by (simp add: feed_note_def)

lemma handle_note_feed:
  assumes "feed_note n"
  shows "\<exists>st' evs. handle_note w inst delay n st = (Inr (), st') \<and>
           trace st' = trace st @ evs \<and> cursor_steps evs = [SaveState (note_id n)] \<and>
           saved st' = note_id n \<and> since_cfg st' = note_id n \<and>
           running st' = (running st \<and> Signal \<notin> set evs) \<and>
           list_all (\<lambda>e. \<not> is_fetch e) evs"
proof -
  obtain s where i: "map_of n ''id'' = Some (JStr s)" "note_id n = JStr s"
    using feed_note_id [OF assms] by blast
  obtain b where b: "should_crosspost n = Inr b" using feed_note_should [OF assms] by blast
  define r1 where "r1 = (if b then crosspost_note w inst delay n st else (Inr (), st))"
  obtain x st1 where r1: "r1 = (x, st1)" by force
  have c: "crossposting st st1"
    using r1 cp_crosspost_note [of w inst delay n st x st1]
    by (cases b) (auto simp: r1_def crossposting_refl)
  have x: "x = Inr ()"
    using r1 crosspost_note_no_raise [OF i(1), of w inst delay st]
    by (cases b) (auto simp: r1_def)
  from c obtain evs where e: "trace st1 = trace st @ evs" "list_all cross_event evs"
     "saved st1 = saved st" "since_cfg st1 = since_cfg st"
     "running st1 = (running st \<and> Signal \<notin> set evs)"
    unfolding crossposting_def by blast
  have h: "handle_note w inst delay n st = (Inr (), save_state w (JStr s) (st1\<lparr>since_cfg := JStr s\<rparr>))"
    using b r1 x i by (simp add: handle_note_def r1_def [symmetric] subscript_def)
  show ?thesis
    unfolding h i(2)
    using e by (auto simp: save_state_def emit_def cursor_steps_cross cross_no_fetch)
qed


lemma passed_Nil [simp]: "passed since [] = []"
  by (simp add: passed_def)

lemma passed_Cons:
  "passed since (n # ns) = (if note_id n \<noteq> since then [n] else []) @ passed (note_id n) ns"
  by (simp add: passed_def)

lemma py_eq_str [simp]: "py_eq (JStr s) x = (x = JStr s)"
  by (cases x) auto

lemma stream_batch_feed:
  assumes "list_all feed_note batch"
  shows "\<exists>st' evs. stream_batch w (handle_note w inst delay) batch since st
             = (Inr (last (since # map note_id batch)), st') \<and>
           trace st' = trace st @ evs \<and>
           cursor_steps evs = concat (map (\<lambda>n. [Yield n, SaveState (note_id n)]) (passed since batch)) \<and>
           saved st' = (if passed since batch = [] then saved st else note_id (last (passed since batch))) \<and>
           running st' = (running st \<and> Signal \<notin> set evs) \<and>
           list_all (\<lambda>e. \<not> is_fetch e) evs"
  using assms
proof (induction batch arbitrary: since st)
  case Nil
  then show ?case by simp
next
  case (Cons n ns)
  then have fn: "feed_note n" and fns: "list_all feed_note ns" by simp_all
  obtain s where i: "map_of n ''id'' = Some (JStr s)" "note_id n = JStr s"
    using feed_note_id [OF fn] by blast
  show ?case
  proof (cases "JStr s = since")
    case True
    then have skip: "stream_batch w (handle_note w inst delay) (n # ns) since st
        = stream_batch w (handle_note w inst delay) ns since st"
      using i by (auto simp: subscript_def)
    have p: "passed since (n # ns) = passed since ns"
      using True i by (simp add: passed_Cons)
    have l: "last (since # map note_id (n # ns)) = last (since # map note_id ns)"
      using True i by simp
    show ?thesis unfolding skip p l using Cons.IH [OF fns] by blast
  next
    case False
    let ?st0 = "emit w (Yield n) st"
    obtain st1 evs1 where h: "handle_note w inst delay n ?st0 = (Inr (), st1)"
        "trace st1 = trace ?st0 @ evs1" "cursor_steps evs1 = [SaveState (note_id n)]"
        "saved st1 = note_id n" "running st1 = (running ?st0 \<and> Signal \<notin> set evs1)"
        "list_all (\<lambda>e. \<not> is_fetch e) evs1"
      using handle_note_feed [OF fn, of w inst delay ?st0] by blast
    have step: "stream_batch w (handle_note w inst delay) (n # ns) since st
        = stream_batch w (handle_note w inst delay) ns (JStr s) st1"
      using False i h(1) by (auto simp: subscript_def)
    obtain st' evs where r: "stream_batch w (handle_note w inst delay) ns (JStr s) st1
             = (Inr (last (JStr s # map note_id ns)), st')"
        "trace st' = trace st1 @ evs"
        "cursor_steps evs = concat (map (\<lambda>n. [Yield n, SaveState (note_id n)]) (passed (JStr s) ns))"
        "saved st' = (if passed (JStr s) ns = [] then saved st1 else note_id (last (passed (JStr s) ns)))"
        "running st' = (running st1 \<and> Signal \<notin> set evs)"
        "list_all (\<lambda>e. \<not> is_fetch e) evs"
      using Cons.IH [OF fns, of "JStr s" st1] by blast
    obtain evs0 where e0: "trace ?st0 = trace st @ evs0" "cursor_steps evs0 = [Yield n]"
        "running ?st0 = (running st \<and> Signal \<notin> set evs0)" "list_all (\<lambda>e. \<not> is_fetch e) evs0"
      by (cases "signal_at w (length (trace st))") (auto simp: emit_def)
    have p: "passed since (n # ns) = n # passed (JStr s) ns"
      using False i by (simp add: passed_Cons)
    show ?thesis
      unfolding step p
      apply (rule exI [of _ st'], rule exI [of _ "evs0 @ evs1 @ evs"])
      using r h e0 i by auto
  qed
qed


subsection \<open>One iteration of the streaming loop\<close>

lemma yielded_append [simp]: "yielded (a @ b) = yielded a @ yielded b"
  by (induction a rule: yielded.induct) auto

lemma yielded_cursor_steps: "yielded (cursor_steps evs) = yielded evs"
  by (induction evs rule: yielded.induct) auto

lemma yielded_steps: "yielded (concat (map (\<lambda>n. [Yield n, SaveState (note_id n)]) ns)) = ns"
  by (induction ns) auto

lemma last_passed:
  "last (since # map note_id (passed since batch)) = last (since # map note_id batch)"
proof (induction batch arbitrary: since)
  case Nil
  show ?case by simp
next
  case (Cons n ns)
  have two: "\<And>x y zs. last (x # y # zs) = last (y # (zs :: json list))" by simp
  show ?case
  proof (cases "note_id n = since")
    case True
    then show ?thesis using Cons.IH [of since] by (simp add: passed_Cons two del: last.simps)
  next
    case False
    then show ?thesis using Cons.IH [of "note_id n"] by (simp add: passed_Cons two del: last.simps)
  qed
qed

lemma get_user_notes_eq:
  "get_user_notes w uid lim since st =
     (notes_resp w (length (trace st)),
      emit w (Fetch uid lim since (notes_resp w (length (trace st)))) st)"
  by (simp add: get_user_notes_def Let_def)

lemma emit_events:
  "\<exists>evs. trace (emit w e st) = trace st @ e # evs \<and> list_all (\<lambda>x. x = Signal) evs \<and>
         running (emit w e st) = (running st \<and> evs = []) \<and>
         saved (emit w e st) = saved st \<and> since_cfg (emit w e st) = since_cfg st"
  by (auto simp: emit_def)

lemma deliver_events:
  "trace (deliver w st) =
     trace st @ (if signal_before w (length (trace st)) then [Signal] else []) \<and>
   running (deliver w st) = (running st \<and> \<not> signal_before w (length (trace st))) \<and>
   saved (deliver w st) = saved st \<and> since_cfg (deliver w st) = since_cfg st"
  by (simp add: deliver_def)

lemma signals_only:
  "list_all (\<lambda>x. x = Signal) xs \<Longrightarrow>
   cursor_steps xs = [] \<and> filter is_fetch xs = [] \<and> yielded xs = [] \<and>
   filter (\<lambda>e. e \<noteq> Signal) xs = [] \<and>
   list_all (\<lambda>e. \<not> is_fetch e) xs \<and> (xs = [] \<longleftrightarrow> Signal \<notin> set xs)"
  by (induction xs) auto

lemma stream_notes_fetched:
  assumes "running st" "notes_resp w (length (trace (deliver w st))) = Inr batch"
    and "list_all feed_note batch"
  shows "\<exists>st2 mid sg.
           (\<forall>k. stream_notes (Suc k) w (handle_note w inst delay) uid since st =
              stream_notes k w (handle_note w inst delay) uid (last (since # map note_id batch)) st2) \<and>
           trace st2 =
             trace st @ (if signal_before w (length (trace st)) then [Signal] else []) @
               Fetch uid 10 since (Inr batch) # mid @ Sleep 5 # sg \<and>
           list_all (\<lambda>x. x = Signal) sg \<and>
           list_all (\<lambda>e. \<not> is_fetch e) mid \<and>
           cursor_steps mid =
             concat (map (\<lambda>n. [Yield n, SaveState (note_id n)]) (passed since batch)) \<and>
           saved st2 =
             (if passed since batch = [] then saved st else note_id (last (passed since batch))) \<and>
           running st2 =
             (\<not> signal_before w (length (trace st)) \<and> Signal \<notin> set mid \<and> sg = [])"
proof -
  let ?body = "handle_note w inst delay"
  let ?st0 = "deliver w st"
  let ?st1 = "emit w (Fetch uid 10 since (Inr batch)) ?st0"
  note d = deliver_events [of w st]
  obtain e1 where e1: "trace ?st1 = trace ?st0 @ Fetch uid 10 since (Inr batch) # e1"
      "list_all (\<lambda>x. x = Signal) e1" "running ?st1 = (running ?st0 \<and> e1 = [])"
      "saved ?st1 = saved ?st0"
    using emit_events [of w "Fetch uid 10 since (Inr batch)" ?st0] by blast
  obtain st' evs where b: "stream_batch w ?body batch since ?st1
             = (Inr (last (since # map note_id batch)), st')"
       "trace st' = trace ?st1 @ evs"
       "cursor_steps evs = concat (map (\<lambda>n. [Yield n, SaveState (note_id n)]) (passed since batch))"
       "saved st' = (if passed since batch = [] then saved ?st1 else note_id (last (passed since batch)))"
       "running st' = (running ?st1 \<and> Signal \<notin> set evs)"
       "list_all (\<lambda>e. \<not> is_fetch e) evs"
    using stream_batch_feed [OF assms(3), of w inst delay since ?st1] by blast
  let ?st2 = "emit w (Sleep 5) st'"
  obtain e2 where e2: "trace ?st2 = trace st' @ Sleep 5 # e2"
      "list_all (\<lambda>x. x = Signal) e2" "running ?st2 = (running st' \<and> e2 = [])"
      "saved ?st2 = saved st'"
    using emit_events [of w "Sleep 5" st'] by blast
  have step: "stream_notes (Suc k) w ?body uid since st =
      stream_notes k w ?body uid (last (since # map note_id batch)) ?st2" for k
    using assms(1,2) b(1) by (simp add: get_user_notes_eq)
  note s1 = signals_only [OF e1(2)]
  have tr: "trace ?st2 =
             trace st @ (if signal_before w (length (trace st)) then [Signal] else []) @
               Fetch uid 10 since (Inr batch) # (e1 @ evs) @ Sleep 5 # e2"
    using e2(1) b(2) e1(1) d by simp
  have nf: "list_all (\<lambda>e. \<not> is_fetch e) (e1 @ evs)" using s1 b(6) by simp
  have cs: "cursor_steps (e1 @ evs) =
      concat (map (\<lambda>n. [Yield n, SaveState (note_id n)]) (passed since batch))"
    using s1 b(3) by simp
  have sv: "saved ?st2 =
      (if passed since batch = [] then saved st else note_id (last (passed since batch)))"
    using e2(4) b(4) e1(4) d by simp
  have rn: "running ?st2 =
      (\<not> signal_before w (length (trace st)) \<and> Signal \<notin> set (e1 @ evs) \<and> e2 = [])"
    using e2(3) b(5) e1(3) d s1 assms(1) by auto
  show ?thesis
    apply (rule exI [of _ ?st2], rule exI [of _ "e1 @ evs"], rule exI [of _ e2])
    using step tr e2(2) nf cs sv rn by blast
qed

lemma stream_notes_failed:
  assumes "running st" "notes_resp w (length (trace (deliver w st))) = Inl (RequestException m)"
  shows "\<exists>st2 evs.
           (\<forall>k. stream_notes (Suc k) w body uid since st = stream_notes k w body uid since st2) \<and>
           trace st2 =
             trace st @ (if signal_before w (length (trace st)) then [Signal] else []) @ evs \<and>
           filter (\<lambda>e. e \<noteq> Signal) evs =
             [Fetch uid 10 since (Inl (RequestException m)),
              Print (StreamError (RequestException m)), Sleep 30] \<and>
           saved st2 = saved st \<and> since_cfg st2 = since_cfg st \<and>
           running st2 = (\<not> signal_before w (length (trace st)) \<and> Signal \<notin> set evs)"
proof -
  let ?e = "RequestException m"
  let ?st0 = "deliver w st"
  let ?st1 = "emit w (Fetch uid 10 since (Inl ?e)) ?st0"
  let ?sa = "emit w (Print (StreamError ?e)) ?st1"
  let ?st2 = "emit w (Sleep 30) ?sa"
  note d = deliver_events [of w st]
  have step: "stream_notes (Suc k) w body uid since st = stream_notes k w body uid since ?st2" for k
    using assms by (simp add: get_user_notes_eq)
  obtain s1 where s1: "trace ?st1 = trace ?st0 @ Fetch uid 10 since (Inl ?e) # s1"
     "list_all (\<lambda>x. x = Signal) s1" "running ?st1 = (running ?st0 \<and> s1 = [])"
     "saved ?st1 = saved ?st0" "since_cfg ?st1 = since_cfg ?st0"
    using emit_events [of w "Fetch uid 10 since (Inl ?e)" ?st0] by blast
  obtain s2 where s2: "trace ?sa = trace ?st1 @ Print (StreamError ?e) # s2"
     "list_all (\<lambda>x. x = Signal) s2" "running ?sa = (running ?st1 \<and> s2 = [])"
     "saved ?sa = saved ?st1" "since_cfg ?sa = since_cfg ?st1"
    using emit_events [of w "Print (StreamError ?e)" ?st1] by blast
  obtain s3 where s3: "trace ?st2 = trace ?sa @ Sleep 30 # s3"
     "list_all (\<lambda>x. x = Signal) s3" "running ?st2 = (running ?sa \<and> s3 = [])"
     "saved ?st2 = saved ?sa" "since_cfg ?st2 = since_cfg ?sa"
    using emit_events [of w "Sleep 30" ?sa] by blast
  note g1 = signals_only [OF s1(2)] and g2 = signals_only [OF s2(2)] and g3 = signals_only [OF s3(2)]
  let ?evs = "Fetch uid 10 since (Inl ?e) # s1 @ Print (StreamError ?e) # s2 @ Sleep 30 # s3"
  have tr: "trace ?st2 =
      trace st @ (if signal_before w (length (trace st)) then [Signal] else []) @ ?evs"
    using s3(1) s2(1) s1(1) d by simp
  have fl: "filter (\<lambda>e. e \<noteq> Signal) ?evs =
      [Fetch uid 10 since (Inl ?e), Print (StreamError ?e), Sleep 30]"
    using g1 g2 g3 by simp
  have fr: "saved ?st2 = saved st" "since_cfg ?st2 = since_cfg st"
    using s3(4,5) s2(4,5) s1(4,5) d by simp_all
  have rn: "running ?st2 = (\<not> signal_before w (length (trace st)) \<and> Signal \<notin> set ?evs)"
    using s3(3) s2(3) s1(3) d g1 g2 g3 assms(1) by auto
  show ?thesis
    apply (rule exI [of _ ?st2], rule exI [of _ ?evs])
    using step tr fl fr rn by blast
qed

subsection \<open>The streaming loop: what every run records\<close>

lemma advancing_refl: "advancing st st"
  by (simp add: advancing_def)

lemma advancing_trans: "advancing a b \<Longrightarrow> advancing b c \<Longrightarrow> advancing a c"
  unfolding advancing_def
  by (elim exE conjE, rule_tac x="evs @ evsa" in exI) auto

lemma crossposting_advancing: "crossposting st st' \<Longrightarrow> advancing st st'"
  unfolding crossposting_def advancing_def by (blast intro: cross_no_fetch)

lemma advancing_emit: "\<not> is_fetch e \<Longrightarrow> e \<noteq> Signal \<Longrightarrow> advancing st (emit w e st)"
  by (auto simp: advancing_def emit_def)

lemma advancing_field_update [simp]:
  "advancing (st\<lparr>since_cfg := c\<rparr>) st' = advancing st st'"
  "advancing st (st'\<lparr>since_cfg := c\<rparr>) = advancing st st'"
  "advancing (st\<lparr>saved := c\<rparr>) st' = advancing st st'"
  "advancing st (st'\<lparr>saved := c\<rparr>) = advancing st st'"
  by (simp_all add: advancing_def)

lemma adv_save_state: "advancing st (save_state w i (st\<lparr>since_cfg := c\<rparr>))"
  by (auto simp: save_state_def advancing_def emit_def)

lemma adv_handle_note: "handle_note w inst delay n st = (r, st') \<Longrightarrow> advancing st st'"
proof -
  assume h: "handle_note w inst delay n st = (r, st')"
  show ?thesis
  proof (cases "should_crosspost n")
    case (Inl e)
    then show ?thesis using h by (simp add: handle_note_def advancing_refl)
  next
    case (Inr b)
    define r1 where "r1 = (if b then crosspost_note w inst delay n st else (Inr (), st))"
    obtain x st1 where r1: "r1 = (x, st1)" by force
    have "crossposting st st1"
      using r1 cp_crosspost_note [of w inst delay n st x st1]
      by (cases b) (auto simp: r1_def crossposting_refl)
    then have a1: "advancing st st1" by (rule crossposting_advancing)
    have h': "(case x of Inl e \<Rightarrow> (Inl e, st1)
               | Inr _ \<Rightarrow> (case subscript n ''id'' of Inl e \<Rightarrow> (Inl e, st1)
                   | Inr i \<Rightarrow> (Inr (), save_state w i (st1\<lparr>since_cfg := i\<rparr>)))) = (r, st')"
      using h Inr r1 by (simp add: handle_note_def r1_def [symmetric])
    then have "st' = st1 \<or> (\<exists>i. st' = save_state w i (st1\<lparr>since_cfg := i\<rparr>))"
      by (auto split: sum.splits)
    then show ?thesis
      using a1 by (auto intro: advancing_trans adv_save_state)
  qed
qed

lemma adv_stream_batch:
  "stream_batch w (handle_note w inst delay) batch since st = (r, st') \<Longrightarrow> advancing st st'"
proof (induction batch arbitrary: since st)
  case Nil
  then show ?case by (simp add: advancing_refl)
next
  case (Cons n ns)
  let ?body = "handle_note w inst delay"
  define t where "t = (if since = JNull then Inr True
            else (case subscript n ''id'' of Inl e \<Rightarrow> Inl e | Inr i \<Rightarrow> Inr (\<not> py_eq i since)))"
  show ?case
  proof (cases t)
    case (Inl e)
    then show ?thesis using Cons.prems by (simp add: t_def [symmetric] advancing_refl)
  next
    case (Inr b)
    show ?thesis
    proof (cases b)
      case False
      then have "stream_batch w ?body ns since st = (r, st')"
        using Cons.prems Inr by (simp add: t_def [symmetric])
      then show ?thesis by (rule Cons.IH)
    next
      case True
      let ?st0 = "emit w (Yield n) st"
      have a0: "advancing st ?st0" by (simp add: advancing_emit)
      obtain x st1 where b: "?body n ?st0 = (x, st1)" by force
      have a1: "advancing ?st0 st1" using adv_handle_note [OF b] .
      have p: "(case x of Inl e \<Rightarrow> (Inl e, st1)
               | Inr _ \<Rightarrow> (case subscript n ''id'' of Inl e \<Rightarrow> (Inl e, st1)
                   | Inr i \<Rightarrow> stream_batch w ?body ns i st1)) = (r, st')"
        using Cons.prems Inr True b by (simp add: t_def [symmetric])
      then have "st' = st1 \<or> (\<exists>i. stream_batch w ?body ns i st1 = (r, st'))"
        by (auto split: sum.splits)
      then have "advancing st1 st'"
        using Cons.IH by (auto simp: advancing_refl)
      then show ?thesis using a0 a1 by (blast intro: advancing_trans)
    qed
  qed
qed


lemma stream_notes_iteration:
  assumes "running st"
  shows "\<exists>st2 rest.
           trace st2 =
             trace st @ (if signal_before w (length (trace st)) then [Signal] else []) @
               Fetch uid 10 since (notes_resp w (length (trace (deliver w st)))) # rest \<and>
           list_all (\<lambda>e. \<not> is_fetch e) rest \<and>
           running st2 = (\<not> signal_before w (length (trace st)) \<and> Signal \<notin> set rest) \<and>
           ((\<exists>e. stream_notes (Suc k) w (handle_note w inst delay) uid since st = Raised e st2) \<or>
            (\<exists>since'. stream_notes (Suc k) w (handle_note w inst delay) uid since st =
               stream_notes k w (handle_note w inst delay) uid since' st2))"
proof -
  let ?body = "handle_note w inst delay"
  let ?st0 = "deliver w st"
  let ?sg0 = "if signal_before w (length (trace st)) then [Signal] else []"
  let ?r = "notes_resp w (length (trace ?st0))"
  let ?st1 = "emit w (Fetch uid 10 since ?r) ?st0"
  note d = deliver_events [of w st]
  obtain e1 where e1: "trace ?st1 = trace ?st0 @ Fetch uid 10 since ?r # e1"
      "list_all (\<lambda>x. x = Signal) e1" "running ?st1 = (running ?st0 \<and> e1 = [])"
    using emit_events [of w "Fetch uid 10 since ?r" ?st0] by blast
  note sig = signals_only [OF e1(2)]
  have base: "advancing ?st1 st2 \<Longrightarrow>
      \<exists>rest. trace st2 = trace st @ ?sg0 @ Fetch uid 10 since ?r # rest \<and>
        list_all (\<lambda>e. \<not> is_fetch e) rest \<and>
        running st2 = (\<not> signal_before w (length (trace st)) \<and> Signal \<notin> set rest)" for st2
    unfolding advancing_def
    apply (elim exE conjE)
    subgoal for evs
      apply (rule exI [of _ "e1 @ evs"])
      using e1 sig assms d by auto
    done
  show ?thesis
  proof (cases ?r)
    case (Inl e)
    show ?thesis
    proof (cases "is_RequestException e")
      case True
      let ?st2 = "emit w (Sleep 30) (emit w (Print (StreamError e)) ?st1)"
      have "advancing ?st1 ?st2"
        by (blast intro: advancing_trans advancing_emit [of "Print (StreamError e)", simplified]
              advancing_emit [of "Sleep 30", simplified])
      moreover have "stream_notes (Suc k) w ?body uid since st = stream_notes k w ?body uid since ?st2"
        using assms Inl True by (simp add: get_user_notes_eq)
      ultimately show ?thesis using base by blast
    next
      case False
      have "stream_notes (Suc k) w ?body uid since st = Raised e ?st1"
        using assms Inl False by (simp add: get_user_notes_eq)
      then show ?thesis using base [OF advancing_refl] by blast
    qed
  next
    case (Inr batch)
    obtain x st2 where b: "stream_batch w ?body batch since ?st1 = (x, st2)" by force
    have a: "advancing ?st1 st2" using adv_stream_batch b unfolding Inr by blast
    show ?thesis
    proof (cases x)
      case (Inl e)
      have "stream_notes (Suc k) w ?body uid since st = Raised e st2"
        using assms Inr Inl b by (simp add: get_user_notes_eq)
      then show ?thesis using base [OF a] by blast
    next
      case (Inr since')
      let ?st3 = "emit w (Sleep 5) st2"
      have "advancing ?st1 ?st3"
        using a by (blast intro: advancing_trans advancing_emit [of "Sleep 5", simplified])
      moreover have "stream_notes (Suc k) w ?body uid since st = stream_notes k w ?body uid since' ?st3"
        using assms \<open>?r = Inr batch\<close> Inr b by (simp add: get_user_notes_eq)
      ultimately show ?thesis using base by blast
    qed
  qed
qed

lemma fas_no_signal:
  "Signal \<notin> set a \<Longrightarrow> fetches_after_signal (a @ b) = fetches_after_signal b"
  by (induction a) auto

lemma fas_bound: "fetches_after_signal evs \<le> length (filter is_fetch evs)"
proof (induction evs)
  case Nil
  show ?case by simp
next
  case (Cons e evs)
  then show ?case by (cases "e = Signal") (auto intro: le_SucI)
qed

lemma fas_iteration:
  assumes "list_all (\<lambda>e. \<not> is_fetch e) rest"
  shows "fetches_after_signal
           ((if b then [Signal] else []) @ Fetch uid lim since r # rest) \<le> 1"
proof -
  have "filter is_fetch rest = []" using assms by (induction rest) auto
  then have "length (filter is_fetch ((if b then [Signal] else []) @ Fetch uid lim since r # rest)) = 1"
    by simp
  then show ?thesis
    using fas_bound [of "(if b then [Signal] else []) @ Fetch uid lim since r # rest"] by simp
qed

lemma stream_notes_stopped:
  "\<not> running st \<Longrightarrow> stream_notes k w body uid since st = Finished st"
  by (cases k) auto

lemma stream_notes_run:
  "\<exists>evs. trace (outcome_state (stream_notes k w (handle_note w inst delay) uid since st))
            = trace st @ evs \<and>
         fetches_after_signal evs \<le> 1 \<and>
         (Signal \<in> set evs \<longrightarrow>
            (\<forall>s. stream_notes k w (handle_note w inst delay) uid since st \<noteq> OutOfFuel s))"
proof (induction k arbitrary: since st)
  case 0
  show ?case by (rule exI [of _ "[]"]) simp
next
  case (Suc k)
  let ?body = "handle_note w inst delay"
  show ?case
  proof (cases "running st")
    case False
    show ?thesis unfolding stream_notes_stopped [OF False] by (rule exI [of _ "[]"]) simp
  next
    case True
    let ?sg0 = "if signal_before w (length (trace st)) then [Signal] else []"
    let ?f = "Fetch uid 10 since (notes_resp w (length (trace (deliver w st))))"
    obtain st2 rest where it:
      "trace st2 = trace st @ ?sg0 @ ?f # rest"
      "list_all (\<lambda>e. \<not> is_fetch e) rest"
      "running st2 = (\<not> signal_before w (length (trace st)) \<and> Signal \<notin> set rest)"
      "(\<exists>e. stream_notes (Suc k) w ?body uid since st = Raised e st2) \<or>
       (\<exists>since'. stream_notes (Suc k) w ?body uid since st = stream_notes k w ?body uid since' st2)"
      using stream_notes_iteration [OF True, of w uid since k inst delay] by blast
    let ?it = "?sg0 @ ?f # rest"
    have n1: "fetches_after_signal ?it \<le> 1" using fas_iteration [OF it(2)] .
    from it(4) show ?thesis
    proof
      assume "\<exists>e. stream_notes (Suc k) w ?body uid since st = Raised e st2"
      then obtain e where r: "stream_notes (Suc k) w ?body uid since st = Raised e st2" by blast
      show ?thesis unfolding r by (rule exI [of _ ?it]) (use it(1) n1 in simp)
    next
      assume "\<exists>since'. stream_notes (Suc k) w ?body uid since st = stream_notes k w ?body uid since' st2"
      then obtain since' where r: "stream_notes (Suc k) w ?body uid since st
          = stream_notes k w ?body uid since' st2" by blast
      show ?thesis
      proof (cases "running st2")
        case False
        show ?thesis unfolding r stream_notes_stopped [OF False]
          by (rule exI [of _ ?it]) (use it(1) n1 in simp)
      next
        case True
        then have ns: "Signal \<notin> set ?it" using it(3) by simp
        obtain evs where i: "trace (outcome_state (stream_notes k w ?body uid since' st2)) = trace st2 @ evs"
          "fetches_after_signal evs \<le> 1"
          "Signal \<in> set evs \<longrightarrow> (\<forall>s. stream_notes k w ?body uid since' st2 \<noteq> OutOfFuel s)"
          using Suc.IH [of since' st2] by blast
        have tr: "trace (outcome_state (stream_notes k w ?body uid since' st2)) = trace st @ ?it @ evs"
          using i(1) it(1) by simp
        have fa: "fetches_after_signal (?it @ evs) \<le> 1"
          using fas_no_signal [OF ns, of evs] i(2) by simp
        have sg: "Signal \<in> set (?it @ evs) \<longrightarrow>
            (\<forall>s. stream_notes k w ?body uid since' st2 \<noteq> OutOfFuel s)"
          using ns i(3) by auto
        show ?thesis unfolding r
          by (rule exI [of _ "?it @ evs"]) (use tr fa sg in blast)
      qed
    qed
  qed
qed

lemma stream_notes_next_fetch:
  assumes "running st"
  shows "\<exists>sg r evs'.
           trace (outcome_state (stream_notes (Suc k) w (handle_note w inst delay) uid since st)) =
             trace st @ sg @ Fetch uid 10 since r # evs' \<and>
           list_all (\<lambda>x. x = Signal) sg"
proof -
  let ?body = "handle_note w inst delay"
  let ?sg0 = "if signal_before w (length (trace st)) then [Signal] else []"
  let ?f = "Fetch uid 10 since (notes_resp w (length (trace (deliver w st))))"
  obtain st2 rest where it:
    "trace st2 = trace st @ ?sg0 @ ?f # rest"
    "(\<exists>e. stream_notes (Suc k) w ?body uid since st = Raised e st2) \<or>
     (\<exists>since'. stream_notes (Suc k) w ?body uid since st = stream_notes k w ?body uid since' st2)"
    using stream_notes_iteration [OF assms, of w uid since k inst delay] by blast
  have sg: "list_all (\<lambda>x. x = Signal) ?sg0" by simp
  from it(2) show ?thesis
  proof
    assume "\<exists>e. stream_notes (Suc k) w ?body uid since st = Raised e st2"
    then obtain e where q: "stream_notes (Suc k) w ?body uid since st = Raised e st2" by blast
    have "trace (outcome_state (stream_notes (Suc k) w ?body uid since st)) =
        trace st @ ?sg0 @ ?f # rest"
      unfolding q using it(1) by simp
    then show ?thesis using sg by blast
  next
    assume "\<exists>since'. stream_notes (Suc k) w ?body uid since st = stream_notes k w ?body uid since' st2"
    then obtain since' where q: "stream_notes (Suc k) w ?body uid since st
         = stream_notes k w ?body uid since' st2" by blast
    obtain evs3 where "trace (outcome_state (stream_notes k w ?body uid since' st2)) = trace st2 @ evs3"
      using stream_notes_run [of k w inst delay uid since' st2] by blast
    then have "trace (outcome_state (stream_notes (Suc k) w ?body uid since st)) =
        trace st @ ?sg0 @ ?f # (rest @ evs3)"
      unfolding q using it(1) by simp
    then show ?thesis using sg by blast
  qed
qed

subsection \<open>Deduplication in the stream\<close>

lemma filter_fetch_none: "list_all (\<lambda>e. \<not> is_fetch e) xs \<Longrightarrow> filter is_fetch xs = []"
  by (induction xs) auto

lemma stream_notes_one:
  "stream_notes 0 w body uid since st = (if running st then OutOfFuel st else Finished st)"
  by simp

lemma old_note_run:
  "stream_notes (Suc 0) (silent\<lparr>notes_resp := \<lambda>_. Inr [plain_note ''1'']\<rparr>)
      (handle_note (silent\<lparr>notes_resp := \<lambda>_. Inr [plain_note ''1'']\<rparr>) ''https://mk.example'' 2)
      (JStr ''u'') (JStr ''5'') (start (JStr ''5'')) =
   OutOfFuel
     \<lparr>trace =
        [Fetch (JStr ''u'') 10 (JStr ''5'') (Inr [plain_note ''1'']),
         Yield (plain_note ''1''),
         CreateStatus (JStr ''hello world'') [] ''unlisted'' JNull (Inr []),
         Print (CrosspostOk (JStr ''1'')), Sleep 2, SaveState (JStr ''1''), Sleep 5],
      running = True, since_cfg = JStr ''1'', saved = JStr ''1''\<rparr>"
  by (simp add: silent_def start_def deliver_def get_user_notes_eq handle_note_def save_state_def
        emit_def plain_note_def should_crosspost_def mentions_cond_def
        text_cond_def get_def get_default_def subscript_def crosspost_note_def
        crosspost_body_def note_visibility_def misskey_to_mastodon_visibility_def
        visibility_map_def create_status_def sleep_def max_sleep_def Let_def)

text \<open>
  Claim C10. Take an iteration of \<open>stream_notes\<close> whose fetch returns a batch of feed
  notes. A run of the loop bounded to that one iteration does not raise and ends in a
  state \<open>st2\<close> whose trace has gained exactly one fetch, the one that returned the
  batch; the notes yielded in it are exactly those whose identifier differs from the
  cursor current when they are reached (\<open>passed\<close>), in feed order. The comparison is
  equality only: a single note whose identifier is smaller than the cursor, in the
  order of strings, is yielded. A longer run goes on from \<open>st2\<close> with the identifier of
  the last yielded note as cursor (the old cursor when none was yielded): unless a stop
  was requested, its next fetch is made with that cursor.
\<close>

theorem stream_dedup_by_equality:
  assumes "running st" "notes_resp w (length (trace (deliver w st))) = Inr batch"
    and "list_all feed_note batch"
  shows "\<exists>st2 evs.
           stream_notes (Suc 0) w (handle_note w inst delay) uid since st =
             (if running st2 then OutOfFuel st2 else Finished st2) \<and>
           trace st2 = trace st @ evs \<and>
           filter is_fetch evs = [Fetch uid 10 since (Inr batch)] \<and>
           yielded evs = passed since batch \<and>
           (\<forall>n i c. batch = [n] \<and> note_id n = JStr i \<and> since = JStr c \<and> i < c
               \<longrightarrow> yielded evs = [n]) \<and>
           stream_notes (Suc (Suc k)) w (handle_note w inst delay) uid since st =
             stream_notes (Suc k) w (handle_note w inst delay) uid
               (last (since # map note_id (passed since batch))) st2 \<and>
           (running st2 \<longrightarrow>
              (\<exists>sg r evs'.
                 trace (outcome_state
                     (stream_notes (Suc (Suc k)) w (handle_note w inst delay) uid since st)) =
                   trace st @ evs @ sg @
                     Fetch uid 10 (last (since # map note_id (passed since batch))) r # evs' \<and>
                 list_all (\<lambda>x. x = Signal) sg))"
proof -
  let ?body = "handle_note w inst delay"
  let ?c = "last (since # map note_id (passed since batch))"
  let ?sg0 = "if signal_before w (length (trace st)) then [Signal] else []"
  obtain st2 mid sg where s:
    "\<forall>k. stream_notes (Suc k) w ?body uid since st =
       stream_notes k w ?body uid (last (since # map note_id batch)) st2"
    "trace st2 = trace st @ ?sg0 @ Fetch uid 10 since (Inr batch) # mid @ Sleep 5 # sg"
    "list_all (\<lambda>x. x = Signal) sg"
    "list_all (\<lambda>e. \<not> is_fetch e) mid"
    "cursor_steps mid = concat (map (\<lambda>n. [Yield n, SaveState (note_id n)]) (passed since batch))"
    using stream_notes_fetched [OF assms, of inst delay uid since] by blast
  let ?evs = "?sg0 @ Fetch uid 10 since (Inr batch) # mid @ Sleep 5 # sg"
  have nxt: "stream_notes (Suc k) w ?body uid since st = stream_notes k w ?body uid ?c st2" for k
    using s(1) unfolding last_passed by blast
  have one: "stream_notes (Suc 0) w ?body uid since st =
      (if running st2 then OutOfFuel st2 else Finished st2)"
    unfolding nxt [of 0] by (rule stream_notes_one)
  have tr: "trace st2 = trace st @ ?evs" using s(2) by simp
  have ft: "filter is_fetch ?evs = [Fetch uid 10 since (Inr batch)]"
    using filter_fetch_none [OF s(4)] signals_only [OF s(3)] by simp
  have ym: "yielded mid = passed since batch"
    using yielded_cursor_steps [of mid] s(5) by (simp add: yielded_steps)
  have y: "yielded ?evs = passed since batch"
    using ym signals_only [OF s(3)] by simp
  have old: "\<forall>n i c. batch = [n] \<and> note_id n = JStr i \<and> since = JStr c \<and> i < c
               \<longrightarrow> yielded ?evs = [n]"
    unfolding y by (auto simp: passed_Cons)
  have go: "running st2 \<longrightarrow>
      (\<exists>sg r evs'.
         trace (outcome_state (stream_notes (Suc (Suc k)) w ?body uid since st)) =
           trace st @ ?evs @ sg @ Fetch uid 10 ?c r # evs' \<and>
         list_all (\<lambda>x. x = Signal) sg)"
  proof
    assume r: "running st2"
    obtain sg' r' evs' where n:
      "trace (outcome_state (stream_notes (Suc k) w ?body uid ?c st2)) =
         trace st2 @ sg' @ Fetch uid 10 ?c r' # evs'"
      "list_all (\<lambda>x. x = Signal) sg'"
      using stream_notes_next_fetch [OF r, of k w inst delay uid ?c] by blast
    have "trace (outcome_state (stream_notes (Suc (Suc k)) w ?body uid since st)) =
           trace st @ ?evs @ sg' @ Fetch uid 10 ?c r' # evs'"
      unfolding nxt [of "Suc k"] n(1) tr by simp
    then show "\<exists>sg r evs'.
         trace (outcome_state (stream_notes (Suc (Suc k)) w ?body uid since st)) =
           trace st @ ?evs @ sg @ Fetch uid 10 ?c r # evs' \<and>
         list_all (\<lambda>x. x = Signal) sg"
      using n(2) by blast
  qed
  show ?thesis
    apply (rule exI [of _ st2], rule exI [of _ ?evs])
    using one tr ft y old nxt [of "Suc k"] go by blast
qed

theorem stream_dedup_by_equality_witness:
  "running (start (JStr ''5'')) \<and>
   notes_resp (silent\<lparr>notes_resp := \<lambda>_. Inr [plain_note ''1'']\<rparr>)
     (length (trace (deliver (silent\<lparr>notes_resp := \<lambda>_. Inr [plain_note ''1'']\<rparr>)
        (start (JStr ''5''))))) = Inr [plain_note ''1''] \<and>
   list_all feed_note [plain_note ''1''] \<and> ''1'' < ''5'' \<and>
   (\<exists>st2 evs.
      stream_notes (Suc 0) (silent\<lparr>notes_resp := \<lambda>_. Inr [plain_note ''1'']\<rparr>)
          (handle_note (silent\<lparr>notes_resp := \<lambda>_. Inr [plain_note ''1'']\<rparr>) ''https://mk.example'' 2)
          (JStr ''u'') (JStr ''5'') (start (JStr ''5'')) =
        (if running st2 then OutOfFuel st2 else Finished st2) \<and>
      running st2 \<and> trace st2 = evs \<and>
      filter is_fetch evs = [Fetch (JStr ''u'') 10 (JStr ''5'') (Inr [plain_note ''1''])] \<and>
      yielded evs = [plain_note ''1''] \<and>
      stream_notes (Suc (Suc 0)) (silent\<lparr>notes_resp := \<lambda>_. Inr [plain_note ''1'']\<rparr>)
          (handle_note (silent\<lparr>notes_resp := \<lambda>_. Inr [plain_note ''1'']\<rparr>) ''https://mk.example'' 2)
          (JStr ''u'') (JStr ''5'') (start (JStr ''5'')) =
        stream_notes (Suc 0) (silent\<lparr>notes_resp := \<lambda>_. Inr [plain_note ''1'']\<rparr>)
          (handle_note (silent\<lparr>notes_resp := \<lambda>_. Inr [plain_note ''1'']\<rparr>) ''https://mk.example'' 2)
          (JStr ''u'') (JStr ''1'') st2)"
proof -
  let ?w = "silent\<lparr>notes_resp := \<lambda>_. Inr [plain_note ''1'']\<rparr>"
  have a1: "running (start (JStr ''5''))" by (simp add: start_def)
  have a2: "notes_resp ?w (length (trace (deliver ?w (start (JStr ''5''))))) = Inr [plain_note ''1'']"
    by simp
  have a3: "list_all feed_note [plain_note ''1'']"
    by (simp add: feed_note_def well_typed_def plain_note_def get_def)
  have lt: "''1'' < ''5''" by simp
  have p: "passed (JStr ''5'') [plain_note ''1''] = [plain_note ''1'']"
    by (simp add: passed_Cons note_id_def plain_note_def get_def)
  have n: "note_id (plain_note ''1'') = JStr ''1''" by (simp add: note_id_def plain_note_def get_def)
  have t0: "trace (start (JStr ''5'')) = []" by (simp add: start_def)
  note t = stream_dedup_by_equality [OF a1 a2 a3, of "''https://mk.example''" 2 "JStr ''u''"
      "JStr ''5''" 0, unfolded p t0 append_Nil]
  obtain st2 evs where r:
    "stream_notes (Suc 0) ?w (handle_note ?w ''https://mk.example'' 2) (JStr ''u'') (JStr ''5'')
        (start (JStr ''5'')) = (if running st2 then OutOfFuel st2 else Finished st2)"
    "trace st2 = evs"
    "filter is_fetch evs = [Fetch (JStr ''u'') 10 (JStr ''5'') (Inr [plain_note ''1''])]"
    "yielded evs = [plain_note ''1'']"
    "stream_notes (Suc (Suc 0)) ?w (handle_note ?w ''https://mk.example'' 2) (JStr ''u'') (JStr ''5'')
        (start (JStr ''5'')) =
     stream_notes (Suc 0) ?w (handle_note ?w ''https://mk.example'' 2) (JStr ''u'')
        (last (JStr ''5'' # map note_id [plain_note ''1''])) st2"
    using t by blast
  have l: "last (JStr ''5'' # map note_id [plain_note ''1'']) = JStr ''1''" using n by simp
  have rn: "running st2" using r(1) unfolding old_note_run by (cases "running st2") simp_all
  show ?thesis using a1 a2 a3 lt rn r(1-4) r(5) [unfolded l] by blast
qed

subsection \<open>Fetch failures\<close>

lemma backoff_one_run:
  "stream_notes (Suc 0) flaky (handle_note flaky ''https://mk.example'' 2) (JStr ''u'')
      (JStr ''5'') (start (JStr ''5'')) =
   OutOfFuel
     \<lparr>trace = [Fetch (JStr ''u'') 10 (JStr ''5'') (Inl (RequestException ''timeout'')),
               Print (StreamError (RequestException ''timeout'')), Sleep 30],
      running = True, since_cfg = JStr ''5'', saved = JStr ''5''\<rparr>"
  by (simp add: start_def flaky_def silent_def deliver_def get_user_notes_eq emit_def)

lemma backoff_run:
  "stream_notes (Suc (Suc 0)) flaky (handle_note flaky ''https://mk.example'' 2) (JStr ''u'')
      (JStr ''5'') (start (JStr ''5'')) =
   OutOfFuel
     \<lparr>trace = [Fetch (JStr ''u'') 10 (JStr ''5'') (Inl (RequestException ''timeout'')),
               Print (StreamError (RequestException ''timeout'')), Sleep 30,
               Fetch (JStr ''u'') 10 (JStr ''5'') (Inr []), Sleep 5],
      running = True, since_cfg = JStr ''5'', saved = JStr ''5''\<rparr>"
  by (simp add: start_def flaky_def silent_def deliver_def get_user_notes_eq emit_def)

text \<open>
  Claim C3. Take an iteration of \<open>stream_notes\<close> whose fetch raises a
  \<open>RequestException\<close>. A run of the loop bounded to that one iteration does not raise:
  it ends in a state \<open>st2\<close> whose trace has gained, apart from runs of the signal
  handler, exactly the failed fetch, the printed error and a sleep of 30 seconds; the
  state file and \<open>config.since_id\<close> are unchanged, and the loop is still going unless a
  stop was requested. A longer run goes on from \<open>st2\<close> with the same cursor: unless a
  stop was requested, its next fetch is made with the same \<open>since_id\<close>.
\<close>

theorem fetch_failure_backoff:
  assumes "running st" "notes_resp w (length (trace (deliver w st))) = Inl (RequestException m)"
  shows "\<exists>st2 evs.
           stream_notes (Suc 0) w (handle_note w inst delay) uid since st =
             (if running st2 then OutOfFuel st2 else Finished st2) \<and>
           trace st2 = trace st @ evs \<and>
           filter (\<lambda>e. e \<noteq> Signal) evs =
             [Fetch uid 10 since (Inl (RequestException m)),
              Print (StreamError (RequestException m)), Sleep 30] \<and>
           saved st2 = saved st \<and> since_cfg st2 = since_cfg st \<and>
           running st2 = (Signal \<notin> set evs) \<and>
           stream_notes (Suc (Suc k)) w (handle_note w inst delay) uid since st =
             stream_notes (Suc k) w (handle_note w inst delay) uid since st2 \<and>
           (running st2 \<longrightarrow>
              (\<exists>sg r evs'.
                 trace (outcome_state
                     (stream_notes (Suc (Suc k)) w (handle_note w inst delay) uid since st)) =
                   trace st @ evs @ sg @ Fetch uid 10 since r # evs' \<and>
                 list_all (\<lambda>x. x = Signal) sg))"
proof -
  let ?body = "handle_note w inst delay"
  let ?e = "RequestException m"
  let ?sg0 = "if signal_before w (length (trace st)) then [Signal] else []"
  obtain st2 ev1 where s:
    "\<forall>k. stream_notes (Suc k) w ?body uid since st = stream_notes k w ?body uid since st2"
    "trace st2 = trace st @ ?sg0 @ ev1"
    "filter (\<lambda>e. e \<noteq> Signal) ev1 = [Fetch uid 10 since (Inl ?e), Print (StreamError ?e), Sleep 30]"
    "saved st2 = saved st" "since_cfg st2 = since_cfg st"
    "running st2 = (\<not> signal_before w (length (trace st)) \<and> Signal \<notin> set ev1)"
    using stream_notes_failed [OF assms, of ?body uid since] by blast
  let ?evs = "?sg0 @ ev1"
  have one: "stream_notes (Suc 0) w ?body uid since st =
      (if running st2 then OutOfFuel st2 else Finished st2)"
    using s(1) [rule_format, of 0] by (simp only: stream_notes_one)
  have tr: "trace st2 = trace st @ ?evs" using s(2) by simp
  have fl: "filter (\<lambda>e. e \<noteq> Signal) ?evs =
      [Fetch uid 10 since (Inl ?e), Print (StreamError ?e), Sleep 30]"
    using s(3) by simp
  have rn: "running st2 = (Signal \<notin> set ?evs)" using s(6) by simp
  have nxt: "stream_notes (Suc (Suc k)) w ?body uid since st = stream_notes (Suc k) w ?body uid since st2"
    using s(1) by blast
  have go: "running st2 \<longrightarrow>
      (\<exists>sg r evs'.
         trace (outcome_state (stream_notes (Suc (Suc k)) w ?body uid since st)) =
           trace st @ ?evs @ sg @ Fetch uid 10 since r # evs' \<and>
         list_all (\<lambda>x. x = Signal) sg)"
  proof
    assume r: "running st2"
    obtain sg' r' evs' where n:
      "trace (outcome_state (stream_notes (Suc k) w ?body uid since st2)) =
         trace st2 @ sg' @ Fetch uid 10 since r' # evs'"
      "list_all (\<lambda>x. x = Signal) sg'"
      using stream_notes_next_fetch [OF r, of k w inst delay uid since] by blast
    have "trace (outcome_state (stream_notes (Suc (Suc k)) w ?body uid since st)) =
           trace st @ ?evs @ sg' @ Fetch uid 10 since r' # evs'"
      unfolding nxt n(1) tr by simp
    then show "\<exists>sg r evs'.
         trace (outcome_state (stream_notes (Suc (Suc k)) w ?body uid since st)) =
           trace st @ ?evs @ sg @ Fetch uid 10 since r # evs' \<and>
         list_all (\<lambda>x. x = Signal) sg"
      using n(2) by blast
  qed
  show ?thesis
    apply (rule exI [of _ st2], rule exI [of _ ?evs])
    using one tr fl s(4,5) rn nxt go by blast
qed

theorem fetch_failure_backoff_witness:
  "running (start (JStr ''5'')) \<and>
   notes_resp flaky (length (trace (deliver flaky (start (JStr ''5''))))) =
     Inl (RequestException ''timeout'') \<and>
   (\<exists>st2 evs.
      stream_notes (Suc 0) flaky (handle_note flaky ''https://mk.example'' 2) (JStr ''u'')
          (JStr ''5'') (start (JStr ''5'')) = OutOfFuel st2 \<and>
      running st2 \<and> trace st2 = evs \<and>
      filter (\<lambda>e. e \<noteq> Signal) evs =
        [Fetch (JStr ''u'') 10 (JStr ''5'') (Inl (RequestException ''timeout'')),
         Print (StreamError (RequestException ''timeout'')), Sleep 30] \<and>
      saved st2 = JStr ''5'' \<and> since_cfg st2 = JStr ''5'' \<and>
      (\<exists>sg r evs'.
         trace (outcome_state
             (stream_notes (Suc (Suc 0)) flaky (handle_note flaky ''https://mk.example'' 2)
                (JStr ''u'') (JStr ''5'') (start (JStr ''5'')))) =
           evs @ sg @ Fetch (JStr ''u'') 10 (JStr ''5'') r # evs' \<and>
         list_all (\<lambda>x. x = Signal) sg))"
proof -
  have a1: "running (start (JStr ''5''))" by (simp add: start_def)
  have a2: "notes_resp flaky (length (trace (deliver flaky (start (JStr ''5''))))) =
      Inl (RequestException ''timeout'')"
    by (simp add: start_def flaky_def silent_def deliver_def)
  have s: "trace (start (JStr ''5'')) = []" "saved (start (JStr ''5'')) = JStr ''5''"
    "since_cfg (start (JStr ''5'')) = JStr ''5''" by (simp_all add: start_def)
  note t = fetch_failure_backoff [OF a1 a2, of "''https://mk.example''" 2 "JStr ''u''" "JStr ''5''" 0,
      unfolded s append_Nil]
  obtain st2 evs where r:
    "stream_notes (Suc 0) flaky (handle_note flaky ''https://mk.example'' 2) (JStr ''u'')
        (JStr ''5'') (start (JStr ''5'')) = (if running st2 then OutOfFuel st2 else Finished st2)"
    "trace st2 = evs"
    "filter (\<lambda>e. e \<noteq> Signal) evs =
       [Fetch (JStr ''u'') 10 (JStr ''5'') (Inl (RequestException ''timeout'')),
        Print (StreamError (RequestException ''timeout'')), Sleep 30]"
    "saved st2 = JStr ''5''" "since_cfg st2 = JStr ''5''"
    "running st2 \<longrightarrow>
       (\<exists>sg r evs'.
         trace (outcome_state
             (stream_notes (Suc (Suc 0)) flaky (handle_note flaky ''https://mk.example'' 2)
                (JStr ''u'') (JStr ''5'') (start (JStr ''5'')))) =
           evs @ sg @ Fetch (JStr ''u'') 10 (JStr ''5'') r # evs' \<and>
         list_all (\<lambda>x. x = Signal) sg)"
    using t by blast
  have rn: "running st2" using r(1) unfolding backoff_one_run by (cases "running st2") simp_all
  have o: "stream_notes (Suc 0) flaky (handle_note flaky ''https://mk.example'' 2) (JStr ''u'')
        (JStr ''5'') (start (JStr ''5'')) = OutOfFuel st2"
    using r(1) rn by simp
  show ?thesis using a1 a2 o rn r(2-6) by blast
qed

subsection \<open>Cancellation\<close>

lemma sleep_total_append [simp]: "sleep_total (a @ b) = sleep_total a + sleep_total b"
  by (induction a rule: sleep_total.induct) auto

lemma sleep_total_filter:
  "sleep_total (filter (\<lambda>e. e \<noteq> Signal) evs) = sleep_total evs"
  by (induction evs rule: sleep_total.induct) auto

lemma interrupted_run:
  "stream_notes (Suc (Suc 0)) interrupted (handle_note interrupted ''https://mk.example'' 2)
      (JStr ''u'') JNull (start JNull) =
   Finished
     \<lparr>trace = [Signal, Fetch (JStr ''u'') 10 JNull (Inl (RequestException ''timeout'')),
               Print (StreamError (RequestException ''timeout'')), Sleep 30],
      running = False, since_cfg = JNull, saved = JNull\<rparr>"
  by (simp add: start_def interrupted_def stop_requested_def silent_def deliver_def
        get_user_notes_eq emit_def)

lemma stop_after_test_failed:
  assumes "running st" "signal_before w (length (trace st))"
    and "notes_resp w (Suc (length (trace st))) = Inl (RequestException m)"
  shows "\<exists>st' evs.
           stream_notes (Suc k) w body uid since st = Finished st' \<and>
           trace st' = trace st @ Signal # evs \<and>
           filter (\<lambda>e. e \<noteq> Signal) evs =
             [Fetch uid 10 since (Inl (RequestException m)),
              Print (StreamError (RequestException m)), Sleep 30] \<and>
           sleep_total evs = 30"
proof -
  have l: "length (trace (deliver w st)) = Suc (length (trace st))"
    using assms(2) by (simp add: deliver_def)
  obtain st2 evs where s:
    "\<forall>k. stream_notes (Suc k) w body uid since st = stream_notes k w body uid since st2"
    "trace st2 =
       trace st @ (if signal_before w (length (trace st)) then [Signal] else []) @ evs"
    "filter (\<lambda>e. e \<noteq> Signal) evs =
       [Fetch uid 10 since (Inl (RequestException m)),
        Print (StreamError (RequestException m)), Sleep 30]"
    "running st2 = (\<not> signal_before w (length (trace st)) \<and> Signal \<notin> set evs)"
    using stream_notes_failed [OF assms(1), of w m body uid since] assms(3) unfolding l by blast
  have nr: "\<not> running st2" using s(4) assms(2) by simp
  have r: "stream_notes (Suc k) w body uid since st = Finished st2"
    using s(1) stream_notes_stopped [OF nr] by simp
  have t: "trace st2 = trace st @ Signal # evs" using s(2) assms(2) by simp
  have sl: "sleep_total evs = 30"
    using sleep_total_filter [of evs] unfolding s(3) by simp
  show ?thesis using r t s(3) sl by blast
qed

lemma stop_after_test_fetched:
  assumes "running st" "signal_before w (length (trace st))"
    and "notes_resp w (Suc (length (trace st))) = Inr batch" "list_all feed_note batch"
  shows "\<exists>st' mid sg.
           stream_notes (Suc k) w (handle_note w inst delay) uid since st = Finished st' \<and>
           trace st' = trace st @ Signal # Fetch uid 10 since (Inr batch) # mid @ Sleep 5 # sg \<and>
           yielded mid = passed since batch \<and>
           list_all (\<lambda>x. x = Signal) sg"
proof -
  let ?body = "handle_note w inst delay"
  have l: "length (trace (deliver w st)) = Suc (length (trace st))"
    using assms(2) by (simp add: deliver_def)
  have f: "notes_resp w (length (trace (deliver w st))) = Inr batch"
    using assms(3) unfolding l .
  obtain st2 mid sg where s:
    "\<forall>k. stream_notes (Suc k) w ?body uid since st =
       stream_notes k w ?body uid (last (since # map note_id batch)) st2"
    "trace st2 =
       trace st @ (if signal_before w (length (trace st)) then [Signal] else []) @
         Fetch uid 10 since (Inr batch) # mid @ Sleep 5 # sg"
    "list_all (\<lambda>x. x = Signal) sg"
    "cursor_steps mid = concat (map (\<lambda>n. [Yield n, SaveState (note_id n)]) (passed since batch))"
    "running st2 =
       (\<not> signal_before w (length (trace st)) \<and> Signal \<notin> set mid \<and> sg = [])"
    using stream_notes_fetched [OF assms(1) f assms(4), of inst delay uid since] by blast
  have nr: "\<not> running st2" using s(5) assms(2) by simp
  have r: "stream_notes (Suc k) w ?body uid since st = Finished st2"
    using s(1) stream_notes_stopped [OF nr] by simp
  have t: "trace st2 = trace st @ Signal # Fetch uid 10 since (Inr batch) # mid @ Sleep 5 # sg"
    using s(2) assms(2) by simp
  have y: "yielded mid = passed since batch"
    using yielded_cursor_steps [of mid] s(4) by (simp add: yielded_steps)
  show ?thesis using r t y s(3) by blast
qed

text \<open>
  Claim C6, as stated, fails. The flag is read only by the \<open>while\<close> test, and the
  sleeps are plain \<open>time.sleep\<close> calls. When the signal arrives right after the test,
  the handler sets the flag and the loop still sends the request of that iteration; as
  the request fails here, the loop then prints and sleeps the full 30 seconds of the
  backoff, which is longer than the polling interval of 5 seconds, before it returns.
\<close>

theorem stop_not_prompt_counterexample:
  "hd (trace (outcome_state
        (stream_notes (Suc (Suc 0)) interrupted (handle_note interrupted ''https://mk.example'' 2)
           (JStr ''u'') JNull (start JNull)))) = Signal \<and>
   \<not> no_fetch_after_signal (trace (outcome_state
        (stream_notes (Suc (Suc 0)) interrupted (handle_note interrupted ''https://mk.example'' 2)
           (JStr ''u'') JNull (start JNull)))) \<and>
   \<not> slept_after_signal (trace (outcome_state
        (stream_notes (Suc (Suc 0)) interrupted (handle_note interrupted ''https://mk.example'' 2)
           (JStr ''u'') JNull (start JNull)))) \<le> poll_interval"
  unfolding interrupted_run by (simp add: poll_interval_def)

text \<open>
  Claim C6, amended. The stop flag is read only by the test at the top of each
  iteration of the loop, not at the sleeps, which are not interruptible. A loop entered
  with the flag down returns at once, without a fetch. In every run at most one fetch
  is recorded after the signal handler first ran, and a run in which the handler
  ran has ended: it did not go on past the next test of the flag. When a stop is
  requested right after the test, the request of that iteration is still sent, and the
  loop returns only after what follows it: if the request fails with a
  \<open>RequestException\<close>, the printed error and the full sleep of 30 seconds; if it
  returns a batch of feed notes, the yield of every note that differs from the cursor
  and then the full sleep of 5 seconds.
\<close>

theorem stop_checked_at_loop_top:
  "(\<not> running st \<longrightarrow> stream_notes k w (handle_note w inst delay) uid since st = Finished st) \<and>
   (\<exists>evs. trace (outcome_state (stream_notes k w (handle_note w inst delay) uid since st))
             = trace st @ evs \<and>
          fetches_after_signal evs \<le> 1 \<and>
          (Signal \<in> set evs \<longrightarrow>
             (\<forall>s. stream_notes k w (handle_note w inst delay) uid since st \<noteq> OutOfFuel s))) \<and>
   (running st \<and> signal_before w (length (trace st)) \<and>
    notes_resp w (Suc (length (trace st))) = Inl (RequestException m) \<longrightarrow>
      (\<exists>st' evs.
         stream_notes (Suc k) w (handle_note w inst delay) uid since st = Finished st' \<and>
         trace st' = trace st @ Signal # evs \<and>
         filter (\<lambda>e. e \<noteq> Signal) evs =
           [Fetch uid 10 since (Inl (RequestException m)),
            Print (StreamError (RequestException m)), Sleep 30] \<and>
         sleep_total evs = 30)) \<and>
   (running st \<and> signal_before w (length (trace st)) \<and>
    notes_resp w (Suc (length (trace st))) = Inr batch \<and> list_all feed_note batch \<longrightarrow>
      (\<exists>st' mid sg.
         stream_notes (Suc k) w (handle_note w inst delay) uid since st = Finished st' \<and>
         trace st' = trace st @ Signal # Fetch uid 10 since (Inr batch) # mid @ Sleep 5 # sg \<and>
         yielded mid = passed since batch \<and>
         list_all (\<lambda>x. x = Signal) sg))"
  using stream_notes_stopped [of st k w "handle_note w inst delay" uid since]
    stream_notes_run [of k w inst delay uid since st]
    stop_after_test_failed [of st w m k "handle_note w inst delay" uid since]
    stop_after_test_fetched [of st w batch k inst delay uid since]
  by blast

theorem stop_checked_at_loop_top_witness:
  "\<not> running ((start JNull)\<lparr>running := False\<rparr>) \<and>
   stream_notes (Suc (Suc 0)) interrupted (handle_note interrupted ''https://mk.example'' 2)
      (JStr ''u'') JNull ((start JNull)\<lparr>running := False\<rparr>)
     = Finished ((start JNull)\<lparr>running := False\<rparr>) \<and>
   running (start JNull) \<and> signal_before interrupted (length (trace (start JNull))) \<and>
   notes_resp interrupted (Suc (length (trace (start JNull)))) = Inl (RequestException ''timeout'') \<and>
   (\<exists>st' evs.
      stream_notes (Suc (Suc 0)) interrupted (handle_note interrupted ''https://mk.example'' 2)
         (JStr ''u'') JNull (start JNull) = Finished st' \<and>
      trace st' = Signal # evs \<and>
      filter (\<lambda>e. e \<noteq> Signal) evs =
        [Fetch (JStr ''u'') 10 JNull (Inl (RequestException ''timeout'')),
         Print (StreamError (RequestException ''timeout'')), Sleep 30] \<and>
      sleep_total evs = 30 \<and>
      fetches_after_signal (trace st') = 1) \<and>
   signal_before stop_requested (length (trace (start JNull))) \<and>
   notes_resp stop_requested (Suc (length (trace (start JNull)))) = Inr [] \<and>
   list_all feed_note [] \<and>
   (\<exists>st' mid sg.
      stream_notes (Suc (Suc 0)) stop_requested (handle_note stop_requested ''https://mk.example'' 2)
         (JStr ''u'') JNull (start JNull) = Finished st' \<and>
      trace st' = Signal # Fetch (JStr ''u'') 10 JNull (Inr []) # mid @ Sleep 5 # sg \<and>
      yielded mid = [])"
proof -
  let ?stopped = "(start JNull)\<lparr>running := False\<rparr>"
  let ?run = "stream_notes (Suc (Suc 0)) interrupted (handle_note interrupted ''https://mk.example'' 2)
                (JStr ''u'') JNull"
  let ?run' = "stream_notes (Suc (Suc 0)) stop_requested
                 (handle_note stop_requested ''https://mk.example'' 2) (JStr ''u'') JNull"
  have a: "\<not> running ?stopped" by simp
  have t0: "trace (start JNull) = []" by (simp add: start_def)
  have b: "running (start JNull)" by (simp add: start_def)
  have c: "signal_before interrupted (length (trace (start JNull)))"
      "notes_resp interrupted (Suc (length (trace (start JNull)))) = Inl (RequestException ''timeout'')"
    by (simp_all add: start_def interrupted_def stop_requested_def silent_def)
  have d: "signal_before stop_requested (length (trace (start JNull)))"
      "notes_resp stop_requested (Suc (length (trace (start JNull)))) = Inr []"
      "list_all feed_note []"
    by (simp_all add: start_def stop_requested_def silent_def)
  have 1: "?run ?stopped = Finished ?stopped"
    using stop_checked_at_loop_top [of ?stopped "Suc (Suc 0)" interrupted "''https://mk.example''" 2
        "JStr ''u''" JNull] a by blast
  obtain st' evs where 2: "?run (start JNull) = Finished st'" "trace st' = Signal # evs"
      "filter (\<lambda>e. e \<noteq> Signal) evs =
        [Fetch (JStr ''u'') 10 JNull (Inl (RequestException ''timeout'')),
         Print (StreamError (RequestException ''timeout'')), Sleep 30]"
      "sleep_total evs = 30"
    using stop_checked_at_loop_top [of "start JNull" "Suc 0" interrupted "''https://mk.example''" 2
        "JStr ''u''" JNull "''timeout''"] b c unfolding t0 by auto
  have st': "st' = outcome_state (?run (start JNull))" using 2(1) by simp
  have 3: "fetches_after_signal (trace st') = 1"
    unfolding st' interrupted_run by simp
  obtain st2 mid sg where 4: "?run' (start JNull) = Finished st2"
      "trace st2 = Signal # Fetch (JStr ''u'') 10 JNull (Inr []) # mid @ Sleep 5 # sg"
      "yielded mid = passed JNull []"
    using stop_checked_at_loop_top [of "start JNull" "Suc 0" stop_requested "''https://mk.example''" 2
        "JStr ''u''" JNull _ "[]"] b d unfolding t0 by auto
  have 5: "yielded mid = []" using 4(3) by simp
  show ?thesis using a 1 b c 2 3 d 4(1,2) 5 by blast
qed

subsection \<open>The cursor after a batch\<close>

lemma feed_note_str_id: "feed_note n \<Longrightarrow> note_id n = JStr (str_id n)"
  by (auto simp: feed_note_def note_id_def str_id_def get_def split: option.splits json.splits)

lemma passed_increasing_tail:
  "list_all feed_note (n # ns) \<Longrightarrow> sorted_wrt (<) (map str_id (n # ns)) \<Longrightarrow>
   passed (note_id n) ns = ns"
proof (induction ns arbitrary: n)
  case Nil
  show ?case by simp
next
  case (Cons m ms)
  have "str_id n < str_id m" using Cons.prems(2) by simp
  then have d: "note_id m \<noteq> note_id n"
    using Cons.prems(1) by (auto simp: feed_note_str_id)
  have "passed (note_id m) ms = ms"
    using Cons.IH [of m] Cons.prems by simp
  then show ?case using d by (simp add: passed_Cons)
qed

lemma passed_increasing:
  assumes "list_all feed_note batch" "sorted_wrt (<) (map str_id batch)" "batch \<noteq> []"
  shows "passed since batch = (if note_id (hd batch) = since then tl batch else batch)"
proof -
  obtain n ns where b: "batch = n # ns" using assms(3) by (cases batch) auto
  show ?thesis
    using passed_increasing_tail [of n ns] assms(1,2) unfolding b by (simp add: passed_Cons)
qed

lemma last_passed_increasing:
  assumes "list_all feed_note batch" "sorted_wrt (<) (map str_id batch)" "batch \<noteq> []"
  shows "(if passed since batch = [] then since else note_id (last (passed since batch)))
           = note_id (last batch)"
proof -
  have "last (since # map note_id (passed since batch)) = last (since # map note_id batch)"
    by (rule last_passed)
  then show ?thesis using assms(3) by (simp add: last_map split: if_splits)
qed

lemma crosspost_loop_feed:
  assumes "list_all feed_note batch"
  shows "\<exists>st'. crosspost_loop w inst delay batch newest st =
            (Inr (if newest = JNull \<and> batch \<noteq> [] then note_id (hd batch) else newest), st') \<and>
          crossposting st st'"
  using assms
proof (induction batch arbitrary: newest st)
  case Nil
  show ?case by (simp add: crossposting_refl)
next
  case (Cons n ns)
  then have fn: "feed_note n" and fns: "list_all feed_note ns" by simp_all
  obtain s where i: "map_of n ''id'' = Some (JStr s)" "note_id n = JStr s"
    using feed_note_id [OF fn] by blast
  obtain b where b: "should_crosspost n = Inr b" using feed_note_should [OF fn] by blast
  define newest' where "newest' = (if newest = JNull then JStr s else newest)"
  have nn: "newest' \<noteq> JNull" by (simp add: newest'_def)
  have t: "(if newest = JNull then subscript n ''id'' else Inr newest) = Inr newest'"
    using i by (simp add: newest'_def subscript_def)
  define r1 where "r1 = (if b then crosspost_note w inst delay n st else (Inr (), st))"
  obtain x st1 where r1: "r1 = (x, st1)" by force
  have c: "crossposting st st1"
    using r1 cp_crosspost_note [of w inst delay n st x st1]
    by (cases b) (auto simp: r1_def crossposting_refl)
  have x: "x = Inr ()"
    using r1 crosspost_note_no_raise [OF i(1), of w inst delay st]
    by (cases b) (auto simp: r1_def)
  have step: "crosspost_loop w inst delay (n # ns) newest st = crosspost_loop w inst delay ns newest' st1"
    using t b r1 x by (cases b) (auto simp: r1_def)
  obtain st' where r: "crosspost_loop w inst delay ns newest' st1 = (Inr newest', st')"
      "crossposting st1 st'"
    using Cons.IH [OF fns, of newest' st1] nn by auto
  show ?case unfolding step
    using r c i by (auto simp: newest'_def intro: crossposting_trans)
qed


lemma crosspost_returns_first:
  assumes "list_all feed_note batch" "batch \<noteq> []"
    and "notes_resp w (length (trace st)) = Inr batch"
    and "misskey_instance cfg = JStr mi" "mastodon_instance cfg = JStr ma"
  shows "\<exists>st' evs.
           crosspost w cfg st = (Inr (note_id (hd batch)), st') \<and>
           trace st' = trace st @ evs \<and> cursor_steps evs = [] \<and> saved st' = saved st"
proof -
  let ?f = "Fetch (misskey_user_id cfg) (fetch_limit cfg) (since_id cfg) (Inr batch)"
  let ?st1 = "emit w ?f st"
  obtain e1 where e1: "trace ?st1 = trace st @ ?f # e1" "list_all (\<lambda>x. x = Signal) e1"
      "saved ?st1 = saved st"
    using emit_events [of w ?f st] by blast
  have c1: "cursor_steps e1 = []" using signals_only [OF e1(2)] by simp
  obtain st' where l: "crosspost_loop w (rstrip_slash mi) (crosspost_delay cfg) batch JNull ?st1 =
        (Inr (note_id (hd batch)), st')" "crossposting ?st1 st'"
    using crosspost_loop_feed [OF assms(1), of w "rstrip_slash mi" "crosspost_delay cfg" JNull ?st1]
      assms(2) by auto
  obtain evs where e: "trace st' = trace ?st1 @ evs" "list_all cross_event evs" "saved st' = saved ?st1"
    using l(2) unfolding crossposting_def by blast
  have run: "crosspost w cfg st = (Inr (note_id (hd batch)), st')"
    using assms(3-5) l(1) by (simp add: crosspost_def get_user_notes_eq)
  show ?thesis
    apply (rule exI [of _ st'], rule exI [of _ "?f # e1 @ evs"])
    using run e e1 c1 by (simp add: cursor_steps_cross)
qed

lemma stream_cursor_persisted:
  assumes "list_all feed_note batch" "sorted_wrt (<) (map str_id batch)" "batch \<noteq> []"
    and "running st" "saved st = since"
    and "notes_resp w (length (trace (deliver w st))) = Inr batch"
  shows "\<exists>st2 evs.
           stream_notes (Suc 0) w (handle_note w inst delay) uid since st =
             (if running st2 then OutOfFuel st2 else Finished st2) \<and>
           trace st2 = trace st @ evs \<and>
           cursor_steps evs =
             concat (map (\<lambda>n. [Yield n, SaveState (note_id n)])
               (if note_id (hd batch) = since then tl batch else batch)) \<and>
           saved st2 = note_id (last batch)"
proof -
  let ?body = "handle_note w inst delay"
  let ?sg0 = "if signal_before w (length (trace st)) then [Signal] else []"
  obtain st2 mid sg where s:
    "\<forall>k. stream_notes (Suc k) w ?body uid since st =
       stream_notes k w ?body uid (last (since # map note_id batch)) st2"
    "trace st2 = trace st @ ?sg0 @ Fetch uid 10 since (Inr batch) # mid @ Sleep 5 # sg"
    "list_all (\<lambda>x. x = Signal) sg"
    "cursor_steps mid = concat (map (\<lambda>n. [Yield n, SaveState (note_id n)]) (passed since batch))"
    "saved st2 = (if passed since batch = [] then saved st else note_id (last (passed since batch)))"
    using stream_notes_fetched [OF assms(4,6,1), of inst delay uid since] by blast
  let ?evs = "?sg0 @ Fetch uid 10 since (Inr batch) # mid @ Sleep 5 # sg"
  have one: "stream_notes (Suc 0) w ?body uid since st =
      (if running st2 then OutOfFuel st2 else Finished st2)"
    using s(1) [rule_format, of 0] by (simp only: stream_notes_one)
  have tr: "trace st2 = trace st @ ?evs" using s(2) by simp
  have cs: "cursor_steps ?evs =
      concat (map (\<lambda>n. [Yield n, SaveState (note_id n)])
        (if note_id (hd batch) = since then tl batch else batch))"
    using s(4) signals_only [OF s(3)] unfolding passed_increasing [OF assms(1-3)] by simp
  have sv: "saved st2 = note_id (last batch)"
    using s(5) last_passed_increasing [OF assms(1-3), of since] assms(5) by (simp only:)
  show ?thesis using one tr cs sv by blast
qed

lemma crosspost_run_two:
  "crosspost two_notes example_config (start JNull) =
     (Inr (JStr ''1''),
      \<lparr>trace =
         [Fetch (JStr ''u'') 20 JNull (Inr [plain_note ''1'', plain_note ''2'']),
          CreateStatus (JStr ''hello world'') [] ''unlisted'' JNull (Inr []),
          Print (CrosspostOk (JStr ''1'')), Sleep 2,
          CreateStatus (JStr ''hello world'') [] ''unlisted'' JNull (Inr []),
          Print (CrosspostOk (JStr ''2'')), Sleep 2],
       running = True, since_cfg = JNull, saved = JNull\<rparr>)"
  by (simp add: crosspost_def example_config_def two_notes_def silent_def start_def
        get_user_notes_eq emit_def plain_note_def should_crosspost_def mentions_cond_def
        text_cond_def get_def get_default_def subscript_def crosspost_note_def
        crosspost_body_def note_visibility_def misskey_to_mastodon_visibility_def
        visibility_map_def create_status_def sleep_def max_sleep_def Let_def)

lemma main_loop_run_two:
  "main_loop (Suc 0) two_notes ''https://mk.example'' example_config (start JNull) =
     OutOfFuel
      \<lparr>trace =
         [Fetch (JStr ''u'') 10 JNull (Inr [plain_note ''1'', plain_note ''2'']),
          Yield (plain_note ''1''),
          CreateStatus (JStr ''hello world'') [] ''unlisted'' JNull (Inr []),
          Print (CrosspostOk (JStr ''1'')), Sleep 2, SaveState (JStr ''1''),
          Yield (plain_note ''2''),
          CreateStatus (JStr ''hello world'') [] ''unlisted'' JNull (Inr []),
          Print (CrosspostOk (JStr ''2'')), Sleep 2, SaveState (JStr ''2''),
          Sleep 5],
       running = True, since_cfg = JStr ''2'', saved = JStr ''2''\<rparr>"
  by (simp add: main_loop_def example_config_def two_notes_def silent_def start_def deliver_def
        get_user_notes_eq handle_note_def save_state_def
        emit_def plain_note_def should_crosspost_def mentions_cond_def
        text_cond_def get_def get_default_def subscript_def crosspost_note_def
        crosspost_body_def note_visibility_def misskey_to_mastodon_visibility_def
        visibility_map_def create_status_def sleep_def max_sleep_def Let_def)

text \<open>
  Claim C1 does not hold of \<open>crosspost\<close>. The feed returns the two notes \<open>1\<close> and \<open>2\<close>,
  oldest first, so with strictly increasing identifiers. \<open>crosspost\<close> assigns
  \<open>newest_id\<close> while it is \<open>None\<close>, that is from the first note only, and returns it:
  the result is \<open>1\<close>, the oldest identifier, where the claim and the comment
  \<open>Return the newest ID for the next run\<close> ask for \<open>2\<close>; nothing is written to the
  state file. On the same feed one iteration of the loop of \<open>main\<close> saves the state
  after each note and leaves \<open>2\<close> in the state file and in \<open>config.since_id\<close>.
\<close>

theorem batch_cursor_returns_first:
  "notes_resp two_notes (length (trace (start JNull))) = Inr [plain_note ''1'', plain_note ''2''] \<and>
   list_all feed_note [plain_note ''1'', plain_note ''2''] \<and>
   sorted_wrt (<) (map str_id [plain_note ''1'', plain_note ''2'']) \<and>
   note_id (last [plain_note ''1'', plain_note ''2'']) = JStr ''2'' \<and>
   fst (crosspost two_notes example_config (start JNull)) = Inr (JStr ''1'') \<and>
   fst (crosspost two_notes example_config (start JNull))
     \<noteq> Inr (note_id (last [plain_note ''1'', plain_note ''2''])) \<and>
   saved (snd (crosspost two_notes example_config (start JNull))) = JNull \<and>
   cursor_steps (trace (snd (crosspost two_notes example_config (start JNull)))) = [] \<and>
   saved (outcome_state
      (main_loop (Suc 0) two_notes ''https://mk.example'' example_config (start JNull)))
     = JStr ''2'' \<and>
   cursor_steps (trace (outcome_state
      (main_loop (Suc 0) two_notes ''https://mk.example'' example_config (start JNull))))
     = [Yield (plain_note ''1''), SaveState (JStr ''1''),
        Yield (plain_note ''2''), SaveState (JStr ''2'')]"
  unfolding crosspost_run_two main_loop_run_two
  by (simp add: two_notes_def start_def str_id_def note_id_def plain_note_def get_def
        feed_note_def well_typed_def)

subsection \<open>Attachment transfer: what the trace records\<close>

lemma requested_simps [simp]:
  "requested [] = []" "requested (e # evs) = requested1 e @ requested evs"
  "requested (a @ b) = requested a @ requested b"
  by (simp_all add: requested_def)

lemma fetched_simps [simp]:
  "fetched [] = []" "fetched (e # evs) = fetched1 e @ fetched evs"
  "fetched (a @ b) = fetched a @ fetched b"
  by (simp_all add: fetched_def)

lemma offered_simps [simp]:
  "offered [] = []" "offered (e # evs) = offered1 e @ offered evs"
  "offered (a @ b) = offered a @ offered b"
  by (simp_all add: offered_def)

lemma uploaded_ids_simps [simp]:
  "uploaded_ids [] = []" "uploaded_ids (e # evs) = uploaded1 e @ uploaded_ids evs"
  "uploaded_ids (a @ b) = uploaded_ids a @ uploaded_ids b"
  by (simp_all add: uploaded_ids_def)

lemma status_calls_simps [simp]:
  "status_calls [] = []" "status_calls (e # evs) = status_call1 e @ status_calls evs"
  "status_calls (a @ b) = status_calls a @ status_calls b"
  by (simp_all add: status_calls_def)

lemma outcome_ids_simps [simp]:
  "outcome_ids [] = []" "outcome_ids (e # evs) = outcome1 e @ outcome_ids evs"
  "outcome_ids (a @ b) = outcome_ids a @ outcome_ids b"
  by (simp_all add: outcome_ids_def)

lemma emit_trace:
  "trace (emit w e st) =
     trace st @ e # (if signal_at w (length (trace st)) then [Signal] else [])"
  by (simp add: emit_def)

lemma transfer_event_silent:
  "transfer_event e \<Longrightarrow> status_call1 e = [] \<and> outcome1 e = []"
  by (erule transfer_event.elims) auto

lemma transfer_events_silent:
  "list_all transfer_event evs \<Longrightarrow> status_calls evs = [] \<and> outcome_ids evs = []"
  by (induction evs) (auto simp: transfer_event_silent)

lemma transferring_refl: "transferring st st"
  by (simp add: transferring_def)

lemma transferring_trans: "transferring a b \<Longrightarrow> transferring b c \<Longrightarrow> transferring a c"
  unfolding transferring_def
  by (elim exE conjE, rule_tac x="evs @ evsa" in exI) auto

lemma transferring_emit: "transfer_event e \<Longrightarrow> transferring st (emit w e st)"
  by (auto simp: transferring_def emit_def)

lemma tr_download: "download_attachment w inst u st = (r, st') \<Longrightarrow> transferring st st'"
  by (auto simp: download_attachment_def Let_def transferring_refl transferring_emit
        split: json.splits)

lemma tr_upload: "upload_media w c f m d st = (r, st') \<Longrightarrow> transferring st st'"
  by (auto simp: upload_media_def Let_def transferring_emit)

lemma tr_transfer_file:
  assumes "transfer_file w inst d st = (r, st')"
  shows "transferring st st'"
proof (cases "subscript d ''url''")
  case (Inl e)
  then show ?thesis using assms by (simp add: transfer_file_def transferring_refl)
next
  case (Inr u)
  obtain r1 st1 where d: "download_attachment w inst u st = (r1, st1)" by force
  have t1: "transferring st st1" using tr_download [OF d] .
  show ?thesis
  proof (cases r1)
    case (Inl e)
    then show ?thesis using assms Inr d t1 by (simp add: transfer_file_def)
  next
    case c: (Inr triple)
    obtain fc fnm mt where tr: "triple = (fc, fnm, mt)" by (cases triple) auto
    obtain r2 st2 where u: "upload_media w fc fnm mt (get d ''comment'') st1 = (r2, st2)" by force
    have t2: "transferring st st2" using t1 tr_upload [OF u] by (blast intro: transferring_trans)
    have "st' = st2 \<or> st' = emit w (Sleep 1) st2"
      using assms Inr d c tr u by (auto simp: transfer_file_def split: sum.splits)
    then show ?thesis
      using t2 transferring_emit [of "Sleep 1" st2 w] by (auto intro: transferring_trans)
  qed
qed

lemma tr_process_files_from:
  "process_files_from w inst fs ids st = (r, st') \<Longrightarrow> transferring st st'"
proof (induction fs arbitrary: ids st)
  case Nil
  then show ?case by (simp add: transferring_refl)
next
  case (Cons f fs)
  show ?case
  proof (cases f)
    case (JObj d)
    obtain r1 st1 where t: "transfer_file w inst d st = (r1, st1)" by force
    have c1: "transferring st st1" using tr_transfer_file [OF t] .
    show ?thesis
    proof (cases r1)
      case (Inl e)
      let ?st2 = "emit w (Print (FileError (get_default d ''name'' (JStr ''unknown'')) e)) st1"
      have "process_files_from w inst fs ids ?st2 = (r, st')"
        using Cons.prems JObj t Inl by simp
      from Cons.IH [OF this] have "transferring ?st2 st'" .
      moreover have "transferring st1 ?st2" by (simp add: transferring_emit)
      ultimately show ?thesis using c1 by (blast intro: transferring_trans)
    next
      case (Inr mid)
      have "process_files_from w inst fs (ids @ [mid]) st1 = (r, st')"
        using Cons.prems JObj t Inr by simp
      from Cons.IH [OF this] show ?thesis using c1 by (blast intro: transferring_trans)
    qed
  qed (use Cons.prems in \<open>auto simp: transferring_refl\<close>)
qed

lemma tr_process_note_files:
  "process_note_files w inst files st = (r, st') \<Longrightarrow> transferring st st'"
  unfolding process_note_files_def process_misskey_files_def
  by (auto split: json.splits dest!: tr_process_files_from intro: transferring_refl)

lemma transfer_file_attachment:
  assumes "map_of d ''url'' = Some (JStr u)"
  shows "\<exists>r st' evs. transfer_file w inst d st = (r, st') \<and> trace st' = trace st @ evs \<and>
           requested evs = [absolute_url inst u] \<and> offered evs = fetched evs \<and>
           uploaded_ids evs = (case r of Inl _ \<Rightarrow> [] | Inr i \<Rightarrow> [i])"
proof -
  let ?dr = "download_resp w (length (trace st))"
  let ?st1 = "emit w (Download (absolute_url inst u) ?dr) st"
  have d: "download_attachment w inst (JStr u) st = (?dr, ?st1)"
    by (simp add: download_attachment_def Let_def)
  show ?thesis
  proof (cases ?dr)
    case (Inl e)
    have "transfer_file w inst d st = (Inl e, ?st1)"
      using assms d Inl by (simp add: transfer_file_def subscript_def)
    then show ?thesis using Inl by (simp add: emit_trace)
  next
    case c: (Inr triple)
    obtain fc fnm mt where tr: "triple = (fc, fnm, mt)" by (cases triple) auto
    let ?data = "if truthy (get d ''comment'') then [(''description'', get d ''comment'')] else []"
    let ?ur = "upload_resp w (length (trace ?st1))"
    let ?st2 = "emit w (Upload fc fnm mt ?data ?ur) ?st1"
    have u: "upload_media w fc fnm mt (get d ''comment'') ?st1 = (?ur, ?st2)"
      by (simp add: upload_media_def Let_def)
    show ?thesis
    proof (cases ?ur)
      case (Inl e)
      have "transfer_file w inst d st = (Inl e, ?st2)"
        using assms d c tr u Inl by (simp add: transfer_file_def subscript_def)
      then show ?thesis using c tr Inl by (simp add: emit_trace)
    next
      case m: (Inr media)
      show ?thesis
      proof (cases "map_of media ''id''")
        case None
        have "transfer_file w inst d st = (Inl (KeyError ''id''), ?st2)"
          using assms d c tr u m None by (simp add: transfer_file_def subscript_def)
        then show ?thesis using c tr m None by (simp add: emit_trace)
      next
        case (Some i)
        have "transfer_file w inst d st = (Inr i, emit w (Sleep 1) ?st2)"
          using assms d c tr u m Some by (simp add: transfer_file_def subscript_def)
        then show ?thesis using c tr m Some by (simp add: emit_trace)
      qed
    qed
  qed
qed

lemma process_files_from_attachments:
  assumes "list_all attachment fs"
  shows "\<exists>st' evs. process_files_from w inst fs ids st = (Inr (ids @ uploaded_ids evs), st') \<and>
           trace st' = trace st @ evs \<and> list_all transfer_event evs \<and>
           requested evs = map (file_url inst) fs \<and> offered evs = fetched evs"
  using assms
proof (induction fs arbitrary: ids st)
  case Nil
  show ?case by simp
next
  case (Cons f fs)
  then have af: "attachment f" and afs: "list_all attachment fs" by simp_all
  obtain d u where f: "f = JObj d" "map_of d ''url'' = Some (JStr u)"
  proof (cases f)
    case (JObj d)
    then obtain u where "map_of d ''url'' = Some (JStr u)"
      using af by (auto simp: attachment_def split: option.splits json.splits)
    then show ?thesis using JObj that by blast
  qed (use af in \<open>auto simp: attachment_def\<close>)
  have fu: "file_url inst f = absolute_url inst u" using f by (simp add: file_url_def)
  obtain r st1 e1 where t: "transfer_file w inst d st = (r, st1)" "trace st1 = trace st @ e1"
      "requested e1 = [absolute_url inst u]" "offered e1 = fetched e1"
      "uploaded_ids e1 = (case r of Inl _ \<Rightarrow> [] | Inr i \<Rightarrow> [i])"
    using transfer_file_attachment [OF f(2), of w inst st] by blast
  have te1: "list_all transfer_event e1"
    using tr_transfer_file [OF t(1)] t(2) by (auto simp: transferring_def)
  show ?case
  proof (cases r)
    case (Inl e)
    let ?p = "Print (FileError (get_default d ''name'' (JStr ''unknown'')) e)"
    let ?st2 = "emit w ?p st1"
    obtain st' evs where r: "process_files_from w inst fs ids ?st2 = (Inr (ids @ uploaded_ids evs), st')"
        "trace st' = trace ?st2 @ evs" "list_all transfer_event evs"
        "requested evs = map (file_url inst) fs" "offered evs = fetched evs"
      using Cons.IH [OF afs, of ids ?st2] by blast
    let ?sg = "if signal_at w (length (trace st1)) then [Signal] else []"
    have step: "process_files_from w inst (f # fs) ids st = process_files_from w inst fs ids ?st2"
      using f t(1) Inl by simp
    show ?thesis unfolding step
      apply (rule exI [of _ st'], rule exI [of _ "e1 @ ?p # ?sg @ evs"])
      using r t Inl te1 fu by (simp add: emit_trace)
  next
    case (Inr i)
    obtain st' evs where r: "process_files_from w inst fs (ids @ [i]) st1
          = (Inr ((ids @ [i]) @ uploaded_ids evs), st')"
        "trace st' = trace st1 @ evs" "list_all transfer_event evs"
        "requested evs = map (file_url inst) fs" "offered evs = fetched evs"
      using Cons.IH [OF afs, of "ids @ [i]" st1] by blast
    have step: "process_files_from w inst (f # fs) ids st = process_files_from w inst fs (ids @ [i]) st1"
      using f t(1) Inr by simp
    show ?thesis unfolding step
      apply (rule exI [of _ st'], rule exI [of _ "e1 @ evs"])
      using r t Inr te1 fu by simp
  qed
qed

subsection \<open>Crossposting one note: what the trace records\<close>

lemma crosspost_note_after_files:
  assumes "map_of n ''id'' = Some i" "files_step w inst n st = (rf, st1)"
  shows "\<exists>st' rest. crosspost_note w inst delay n st = (Inr (), st') \<and>
           trace st' = trace st1 @ rest \<and>
           requested rest = [] \<and> fetched rest = [] \<and> offered rest = [] \<and>
           uploaded_ids rest = [] \<and>
           (0 \<le> delay \<and> delay \<le> max_sleep \<longrightarrow> outcome_ids rest = [i]) \<and>
           status_calls rest =
             (case rf of
                Inl _ \<Rightarrow> []
              | Inr ms \<Rightarrow>
                  (case note_visibility n of
                     Inl _ \<Rightarrow> []
                   | Inr v \<Rightarrow> [(get_default n ''text'' (JStr []), ms, v, get n ''cw'')]))"
  using assms
  unfolding crosspost_note_def crosspost_body_def files_step_def [symmetric]
  by (auto simp: create_status_def sleep_def max_sleep_def emit_trace subscript_def Let_def
        split: sum.splits)

lemma tr_files_step: "files_step w inst n st = (rf, st1) \<Longrightarrow> transferring st st1"
  unfolding files_step_def
  by (auto split: if_splits dest: tr_process_note_files intro: transferring_refl)

lemma files_step_ok:
  assumes "files_ok n"
  shows "\<exists>st1 evs. files_step w inst n st = (Inr (uploaded_ids evs), st1) \<and>
           trace st1 = trace st @ evs \<and> list_all transfer_event evs \<and>
           requested evs = map (file_url inst) (note_files n) \<and> offered evs = fetched evs"
proof (cases "get n ''files''")
  case JNull
  then show ?thesis by (simp add: files_step_def note_files_def)
next
  case (JArr fs)
  then have a: "list_all attachment fs" using assms by (simp add: files_ok_def)
  show ?thesis
  proof (cases "fs = []")
    case True
    then show ?thesis using JArr by (simp add: files_step_def note_files_def)
  next
    case False
    then have s: "files_step w inst n st = process_files_from w inst fs [] st"
      using JArr by (simp add: files_step_def process_note_files_def process_misskey_files_def)
    show ?thesis
      unfolding s using process_files_from_attachments [OF a, of w inst "[]" st] JArr
      by (simp add: note_files_def)
  qed
qed (use assms in \<open>simp_all add: files_ok_def\<close>)

lemma crosspost_note_outcome:
  assumes "map_of n ''id'' = Some i" "0 \<le> delay" "delay \<le> max_sleep"
  shows "\<exists>st' evs. crosspost_note w inst delay n st = (Inr (), st') \<and>
           trace st' = trace st @ evs \<and> outcome_ids evs = [i]"
proof -
  obtain rf st1 where f: "files_step w inst n st = (rf, st1)" by force
  obtain e1 where e1: "trace st1 = trace st @ e1" "list_all transfer_event e1"
    using tr_files_step [OF f] unfolding transferring_def by blast
  obtain st' rest where r: "crosspost_note w inst delay n st = (Inr (), st')"
      "trace st' = trace st1 @ rest" "outcome_ids rest = [i]"
    using crosspost_note_after_files [OF assms(1) f, of delay] assms(2,3) by blast
  show ?thesis
    apply (rule exI [of _ st'], rule exI [of _ "e1 @ rest"])
    using r e1 transfer_events_silent [OF e1(2)] by simp
qed

lemma crosspost_note_status:
  assumes "map_of n ''id'' = Some i" "files_ok n" "note_visibility n = Inr v"
  shows "\<exists>st' evs. crosspost_note w inst delay n st = (Inr (), st') \<and>
           trace st' = trace st @ evs \<and>
           requested evs = map (file_url inst) (note_files n) \<and>
           offered evs = fetched evs \<and>
           status_calls evs = [(get_default n ''text'' (JStr []), uploaded_ids evs, v, get n ''cw'')]"
proof -
  obtain st1 e1 where f: "files_step w inst n st = (Inr (uploaded_ids e1), st1)"
      "trace st1 = trace st @ e1" "list_all transfer_event e1"
      "requested e1 = map (file_url inst) (note_files n)" "offered e1 = fetched e1"
    using files_step_ok [OF assms(2), of w inst st] by blast
  obtain st' rest where r: "crosspost_note w inst delay n st = (Inr (), st')"
      "trace st' = trace st1 @ rest"
      "requested rest = []" "fetched rest = []" "offered rest = []" "uploaded_ids rest = []"
      "status_calls rest = [(get_default n ''text'' (JStr []), uploaded_ids e1, v, get n ''cw'')]"
    using crosspost_note_after_files [OF assms(1) f(1), of delay] assms(3) by auto
  show ?thesis
    apply (rule exI [of _ st'], rule exI [of _ "e1 @ rest"])
    using r f transfer_events_silent [OF f(3)] by simp
qed

subsection \<open>Attachment failures\<close>






subsection \<open>Every note of a batch is handled\<close>

lemma save_state_trace:
  "trace (save_state w i st) =
     trace st @ SaveState i # (if signal_at w (length (trace st)) then [Signal] else [])"
  by (simp add: save_state_def emit_trace)

lemma handle_note_eligible:
  assumes "should_crosspost n = Inr True" "map_of n ''id'' = Some i"
    and "crosspost_note w inst delay n st = (Inr (), st1)"
  shows "handle_note w inst delay n st = (Inr (), save_state w i (st1\<lparr>since_cfg := i\<rparr>))"
  using assms by (simp add: handle_note_def subscript_def)











subsection \<open>Failures of one note stay with that note\<close>



text \<open>
  A delay that \<open>time.sleep\<close> refuses: the sleep raises inside the \<open>try\<close>, after the
  status was created and reported, and the handler reports the same note as failed.
\<close>

lemma overlong_delay_run:
  "crosspost_note silent ''https://mk.example'' 10000000000 (plain_note ''1'') (start JNull) =
     (Inr (),
      \<lparr>trace =
         [CreateStatus (JStr ''hello world'') [] ''unlisted'' JNull (Inr []),
          Print (CrosspostOk (JStr ''1'')),
          Print (CrosspostError (JStr ''1'') OverflowError)],
       running = True, since_cfg = JNull, saved = JNull\<rparr>)"
  by (simp add: silent_def start_def
        emit_def plain_note_def get_def get_default_def subscript_def crosspost_note_def
        crosspost_body_def note_visibility_def misskey_to_mastodon_visibility_def
        visibility_map_def create_status_def sleep_def max_sleep_def Let_def)



subsection \<open>The status-creation call\<close>

lemma note_visibility_str:
  "get_default n ''visibility'' (JStr ''public'') = JStr vis \<Longrightarrow>
   note_visibility n = Inr (misskey_to_mastodon_visibility vis)"
  by (simp add: note_visibility_def)

lemma create_status_data_fields:
  "map_of (create_status_data t ms v c) ''status'' = Some t"
  "map_of (create_status_data t ms v c) ''visibility'' = Some (JStr v)"
  "map_of (create_status_data t ms v c) ''media_ids'' = (if ms = [] then None else Some (JArr ms))"
  "map_of (create_status_data t ms v c) ''spoiler_text'' = (if truthy c then Some c else None)"
  by (simp_all add: create_status_data_def)

lemma cw_note_run:
  "handle_note silent ''https://mk.example'' 2 cw_note (start JNull) =
     (Inr (),
      \<lparr>trace =
         [CreateStatus (JStr ''plot twist'') [] ''private'' (JStr ''spoilers'') (Inr []),
          Print (CrosspostOk (JStr ''9'')), Sleep 2, SaveState (JStr ''9'')],
       running = True, since_cfg = JStr ''9'', saved = JStr ''9''\<rparr>)"
  by (simp add: silent_def start_def handle_note_def save_state_def
        emit_def cw_note_def should_crosspost_def mentions_cond_def
        text_cond_def get_def get_default_def subscript_def crosspost_note_def
        crosspost_body_def note_visibility_def misskey_to_mastodon_visibility_def
        visibility_map_def create_status_def sleep_def max_sleep_def Let_def)

text \<open>
  Claim C8. For every eligible note (with an identifier, well-formed attachments and a
  string or missing visibility), handling the note makes exactly one call of
  \<open>create_status\<close>; its arguments are the note's text, the media identifiers that the
  uploads returned, the mapped visibility, and the value of the note's \<open>cw\<close> field as
  it is (\<open>None\<close> when the field is absent). The request built from these arguments
  carries the text, the visibility and the media identifiers, and a \<open>spoiler_text\<close>
  equal to the content warning; it has no \<open>spoiler_text\<close> when the content warning is
  absent (or empty).
\<close>

theorem content_warning_verbatim:
  assumes "should_crosspost n = Inr True" "map_of n ''id'' = Some i" "files_ok n"
    and "get_default n ''visibility'' (JStr ''public'') = JStr vis"
  shows "(\<exists>st' evs.
            handle_note w inst delay n st = (Inr (), st') \<and>
            trace st' = trace st @ evs \<and>
            status_calls evs =
              [(get_default n ''text'' (JStr []), uploaded_ids evs,
                misskey_to_mastodon_visibility vis, get n ''cw'')]) \<and>
         map_of (create_status_data t ms v (get n ''cw'')) ''spoiler_text'' =
           (if truthy (get n ''cw'') then Some (get n ''cw'') else None) \<and>
         map_of (create_status_data t ms v JNull) ''spoiler_text'' = None \<and>
         map_of (create_status_data t ms v c) ''status'' = Some t \<and>
         map_of (create_status_data t ms v c) ''visibility'' = Some (JStr v) \<and>
         map_of (create_status_data t ms v c) ''media_ids'' =
           (if ms = [] then None else Some (JArr ms))"
proof -
  obtain st1 e1 where c: "crosspost_note w inst delay n st = (Inr (), st1)"
      "trace st1 = trace st @ e1"
      "status_calls e1 = [(get_default n ''text'' (JStr []), uploaded_ids e1,
          misskey_to_mastodon_visibility vis, get n ''cw'')]"
    using crosspost_note_status [OF assms(2,3) note_visibility_str [OF assms(4)], of w inst delay st]
    by blast
  let ?sg = "if signal_at w (length (trace st1)) then [Signal] else []"
  have "\<exists>st' evs.
            handle_note w inst delay n st = (Inr (), st') \<and>
            trace st' = trace st @ evs \<and>
            status_calls evs =
              [(get_default n ''text'' (JStr []), uploaded_ids evs,
                misskey_to_mastodon_visibility vis, get n ''cw'')]"
    unfolding handle_note_eligible [OF assms(1,2) c(1)]
    apply (rule exI [of _ "save_state w i (st1\<lparr>since_cfg := i\<rparr>)"],
           rule exI [of _ "e1 @ SaveState i # ?sg"])
    using c by (simp add: save_state_trace)
  then show ?thesis by (simp add: create_status_data_fields)
qed

theorem content_warning_verbatim_witness:
  "should_crosspost cw_note = Inr True \<and> map_of cw_note ''id'' = Some (JStr ''9'') \<and>
   files_ok cw_note \<and> get_default cw_note ''visibility'' (JStr ''public'') = JStr ''followers'' \<and>
   (\<exists>st' evs.
      handle_note silent ''https://mk.example'' 2 cw_note (start JNull) = (Inr (), st') \<and>
      trace st' = evs \<and>
      status_calls evs = [(JStr ''plot twist'', [], ''private'', JStr ''spoilers'')]) \<and>
   map_of (create_status_data (JStr ''plot twist'') [] ''private'' (JStr ''spoilers'')) ''spoiler_text''
     = Some (JStr ''spoilers'')"
proof -
  have a1: "should_crosspost cw_note = Inr True"
    by (simp add: cw_note_def should_crosspost_def mentions_cond_def text_cond_def get_def
          get_default_def)
  have a2: "map_of cw_note ''id'' = Some (JStr ''9'')" by (simp add: cw_note_def)
  have a3: "files_ok cw_note" by (simp add: files_ok_def cw_note_def get_def)
  have a4: "get_default cw_note ''visibility'' (JStr ''public'') = JStr ''followers''"
    by (simp add: cw_note_def get_default_def)
  have t0: "trace (start JNull) = []" by (simp add: start_def)
  have g: "get cw_note ''cw'' = JStr ''spoilers''"
      "get_default cw_note ''text'' (JStr []) = JStr ''plot twist''"
      "misskey_to_mastodon_visibility ''followers'' = ''private''"
    by (simp_all add: cw_note_def get_def get_default_def misskey_to_mastodon_visibility_def
          visibility_map_def)
  note t = content_warning_verbatim [OF a1 a2 a3 a4, of silent "''https://mk.example''" 2
      "start JNull" "JStr ''plot twist''" "[]" "''private''" JNull, unfolded g t0 append_Nil]
  obtain st1 e1 where p:
      "handle_note silent ''https://mk.example'' 2 cw_note (start JNull) = (Inr (), st1)"
      "trace st1 = e1"
      "status_calls e1 = [(JStr ''plot twist'', uploaded_ids e1, ''private'', JStr ''spoilers'')]"
    using conjunct1 [OF t] by auto
  have st1: "st1 = snd (handle_note silent ''https://mk.example'' 2 cw_note (start JNull))"
    using p(1) by simp
  have u: "uploaded_ids e1 = []"
    unfolding p(2) [symmetric] st1 cw_note_run by simp
  have sp: "map_of (create_status_data (JStr ''plot twist'') [] ''private'' (JStr ''spoilers''))
      ''spoiler_text'' = Some (JStr ''spoilers'')"
    using conjunct1 [OF conjunct2 [OF t]] by simp
  show ?thesis using a1 a2 a3 a4 p u sp by auto
qed


subsection \<open>Configuration loading\<close>

lemma map_of_replace:
  "map_of (map (\<lambda>p. if fst p = k then (k, v) else p) d) k' =
     (if k' = k then (if k \<in> fst ` set d then Some v else None) else map_of d k')"
proof (induction d)
  case Nil
  show ?case by simp
next
  case (Cons p d)
  obtain a b where p: "p = (a, b)" by (cases p) auto
  show ?case using Cons.IH unfolding p by (cases "a = k") (auto simp: image_iff, force+)
qed

lemma get_dict_set: "get (dict_set d k v) k' = (if k' = k then v else get d k')"
proof (cases "k \<in> fst ` set d")
  case True
  then show ?thesis by (simp add: dict_set_def get_def map_of_replace)
next
  case False
  then have "map_of d k = None" by (simp add: map_of_eq_None_iff)
  then show ?thesis using False by (auto simp: dict_set_def get_def split: option.splits)
qed

lemma keys_dict_set: "fst ` set (dict_set d k v) = insert k (fst ` set d)"
proof (cases "k \<in> fst ` set d")
  case True
  have "fst ` set (map (\<lambda>p. if fst p = k then (k, v) else p) d) = fst ` set d"
    by (induction d) auto
  then show ?thesis using True by (auto simp: dict_set_def)
next
  case False
  then show ?thesis by (simp add: dict_set_def)
qed

lemma foldl_file_get:
  "distinct (map fst l) \<Longrightarrow>
   get (foldl (\<lambda>cd kv. if get cd (fst kv) = JNull then dict_set cd (fst kv) (snd kv) else cd) d l) k =
     (if get d k = JNull then (case map_of l k of None \<Rightarrow> JNull | Some v \<Rightarrow> v) else get d k)"
proof (induction l arbitrary: d)
  case Nil
  show ?case by simp
next
  case (Cons p l)
  obtain a b where p: "p = (a, b)" by (cases p) auto
  have dl: "distinct (map fst l)" and nin: "a \<notin> fst ` set l" using Cons.prems p by auto
  have none: "map_of l a = None" using nin by (simp add: map_of_eq_None_iff)
  define d' where "d' = (if get d a = JNull then dict_set d a b else d)"
  have g: "get d' k = (if k = a \<and> get d a = JNull then b else get d k)"
    by (simp add: d'_def get_dict_set)
  have ih: "get (foldl (\<lambda>cd kv. if get cd (fst kv) = JNull then dict_set cd (fst kv) (snd kv) else cd) d' l) k =
     (if get d' k = JNull then (case map_of l k of None \<Rightarrow> JNull | Some v \<Rightarrow> v) else get d' k)"
    by (rule Cons.IH [OF dl])
  have step: "foldl (\<lambda>cd kv. if get cd (fst kv) = JNull then dict_set cd (fst kv) (snd kv) else cd) d (p # l)
      = foldl (\<lambda>cd kv. if get cd (fst kv) = JNull then dict_set cd (fst kv) (snd kv) else cd) d' l"
    by (simp add: p d'_def)
  have look: "(case map_of (p # l) k of None \<Rightarrow> JNull | Some v \<Rightarrow> v) =
      (if k = a then b else (case map_of l k of None \<Rightarrow> JNull | Some v \<Rightarrow> v))"
    by (simp add: p)
  have "(if get d' k = JNull then (case map_of l k of None \<Rightarrow> JNull | Some v \<Rightarrow> v) else get d' k) =
      (if get d k = JNull then (case map_of (p # l) k of None \<Rightarrow> JNull | Some v \<Rightarrow> v) else get d k)"
    unfolding g look using none by (cases "k = a") auto
  then show ?case unfolding step ih .
qed

lemma foldl_file_keys:
  "fst ` set (foldl (\<lambda>cd kv. if get cd (fst kv) = JNull then dict_set cd (fst kv) (snd kv) else cd) d l)
     \<subseteq> fst ` set d \<union> fst ` set l"
proof (induction l arbitrary: d)
  case Nil
  show ?case by simp
next
  case (Cons p l)
  define d' where "d' = (if get d (fst p) = JNull then dict_set d (fst p) (snd p) else d)"
  define K where "K = fst ` set (foldl (\<lambda>cd kv. if get cd (fst kv) = JNull
      then dict_set cd (fst kv) (snd kv) else cd) d' l)"
  have a: "fst ` set d' \<subseteq> insert (fst p) (fst ` set d)"
    by (auto simp: d'_def keys_dict_set)
  have ih: "K \<subseteq> fst ` set d' \<union> fst ` set l" unfolding K_def by (rule Cons.IH)
  have step: "fst ` set (foldl (\<lambda>cd kv. if get cd (fst kv) = JNull
      then dict_set cd (fst kv) (snd kv) else cd) d (p # l)) = K"
    by (simp add: K_def d'_def)
  have e: "fst ` set (p # l) = insert (fst p) (fst ` set l)" by simp
  show ?case unfolding step e using a ih by blast
qed

lemma map_of_items: "map_of (items d) k = (if k \<in> fst ` set d then Some (get d k) else None)"
proof -
  have "map_of (map (\<lambda>k. (k, get d k)) ks) k = (if k \<in> set ks then Some (get d k) else None)" for ks
    by (induction ks) auto
  then show ?thesis by (simp add: items_def)
qed

lemma distinct_items: "distinct (map fst (items d))"
  by (simp add: items_def comp_def)

lemma get_absent: "k \<notin> fst ` set d \<Longrightarrow> get d k = JNull"
proof -
  assume "k \<notin> fst ` set d"
  then have "map_of d k = None" by (simp add: map_of_eq_None_iff)
  then show ?thesis by (simp add: get_def)
qed

lemma get_update_from_file:
  "get (update_from_file d fc) k = (if get d k = JNull then get fc k else get d k)"
  unfolding update_from_file_def
  by (simp add: foldl_file_get [OF distinct_items] map_of_items get_absent)

lemma keys_update_from_file:
  "fst ` set (update_from_file d fc) \<subseteq> fst ` set d \<union> fst ` set fc"
proof -
  have "fst ` set (items fc) = fst ` set fc" by (simp add: items_def image_image)
  then show ?thesis using foldl_file_keys [of d "items fc"] by (simp add: update_from_file_def)
qed

lemma env_config_ok:
  assumes "py_int h (environ_get_default h ''FETCH_LIMIT'' ''20'') = Some fl"
    and "py_int h (environ_get_default h ''CROSSPOST_DELAY'' ''2'') = Some cd"
  shows "\<exists>d0. env_config h = Inr d0 \<and>
           list_all (\<lambda>f. get d0 f = environ_get h (env_name f)) required_fields \<and>
           get d0 ''fetch_limit'' = JNum fl \<and> get d0 ''crosspost_delay'' = JNum cd \<and>
           fst ` set d0 \<subseteq> set config_fields"
  using assms
  by (simp add: env_config_def required_fields_def config_fields_def env_name_def get_def)

lemma environ_get_null:
  "(environ_get h v = JNull) = (map_of (environ h) v = None)"
  by (simp add: environ_get_def split: option.splits)

lemma merged_config:
  assumes "py_int h (environ_get_default h ''FETCH_LIMIT'' ''20'') = Some fl"
    and "py_int h (environ_get_default h ''CROSSPOST_DELAY'' ''2'') = Some cd"
    and "readable (read_json h (config_path h))"
  shows "\<exists>d1 out.
           load_config h =
             (if missing_in d1 \<noteq> []
              then (Inl (ValueError (missing_message (missing_in d1))), out)
              else (case load_since_id h of
                      Inl e \<Rightarrow> (Inl e, out)
                    | Inr sid \<Rightarrow> (make_config (dict_set d1 ''since_id'' sid), out))) \<and>
           list_all (\<lambda>f. (get d1 f \<noteq> JNull) = available h f) required_fields \<and>
           get d1 ''fetch_limit'' = JNum fl \<and> get d1 ''crosspost_delay'' = JNum cd \<and>
           fst ` set d1 \<subseteq> set config_fields \<union> set (file_keys h)"
proof -
  obtain d0 where d0: "env_config h = Inr d0"
      "list_all (\<lambda>f. get d0 f = environ_get h (env_name f)) required_fields"
      "get d0 ''fetch_limit'' = JNum fl" "get d0 ''crosspost_delay'' = JNum cd"
      "fst ` set d0 \<subseteq> set config_fields"
    using env_config_ok [OF assms(1,2)] by blast
  have env: "list_all (\<lambda>f. (get d0 f \<noteq> JNull) = (map_of (environ h) (env_name f) \<noteq> None))
               required_fields"
    using d0(2) by (simp add: list_all_iff environ_get_null)
  define phase where "phase = (if missing_in d0 \<noteq> [] then consult_file h d0 else (Inr d0, []))"
  have lc: "load_config h =
      (case phase of
         (Inl e, out) \<Rightarrow> (Inl e, out)
       | (Inr d1, out) \<Rightarrow>
           (if missing_in d1 \<noteq> []
            then (Inl (ValueError (missing_message (missing_in d1))), out)
            else (case load_since_id h of
                    Inl e \<Rightarrow> (Inl e, out)
                  | Inr sid \<Rightarrow> (make_config (dict_set d1 ''since_id'' sid), out))))"
    by (simp add: load_config_def d0(1) phase_def)
  have "\<exists>d1 out. phase = (Inr d1, out) \<and>
          list_all (\<lambda>f. (get d1 f \<noteq> JNull) = available h f) required_fields \<and>
          get d1 ''fetch_limit'' = JNum fl \<and> get d1 ''crosspost_delay'' = JNum cd \<and>
          fst ` set d1 \<subseteq> set config_fields \<union> set (file_keys h)"
  proof (cases "missing_in d0 = []")
    case True
    then have all: "list_all (\<lambda>f. get d0 f \<noteq> JNull) required_fields"
      by (simp add: missing_in_def filter_empty_conv list_all_iff)
    have "list_all (\<lambda>f. (get d0 f \<noteq> JNull) = available h f) required_fields"
      using all env by (auto simp: list_all_iff available_def)
    then show ?thesis using True d0 by (auto simp: phase_def)
  next
    case False
    then have ph: "phase = consult_file h d0" by (simp add: phase_def)
    show ?thesis
    proof (cases "read_json h (config_path h)")
      case (Inl e)
      then have e: "e = FileNotFoundError \<or> e = JSONDecodeError"
        using assms(3) by (cases e) (simp_all add: readable_def)
      have fv: "file_value h f = JNull" for f using Inl by (simp add: file_value_def)
      have "\<exists>out. phase = (Inr d0, out)"
        using e Inl unfolding ph by (auto simp: consult_file_def config_path_def)
      moreover have "list_all (\<lambda>f. (get d0 f \<noteq> JNull) = available h f) required_fields"
        using env by (simp add: list_all_iff available_def fv)
      ultimately show ?thesis using d0 by auto
    next
      case (Inr j)
      then obtain fc where j: "j = JObj fc"
        using assms(3) by (cases j) (simp_all add: readable_def)
      let ?d1 = "update_from_file d0 fc"
      have p: "phase = (Inr ?d1, [])"
        using Inr j unfolding ph by (simp add: consult_file_def config_path_def)
      have fv: "file_value h f = get fc f" for f using Inr j by (simp add: file_value_def)
      have fk: "set (file_keys h) = fst ` set fc" using Inr j by (simp add: file_keys_def)
      have "list_all (\<lambda>f. (get ?d1 f \<noteq> JNull) = available h f) required_fields"
        using env by (auto simp: list_all_iff available_def fv get_update_from_file)
      moreover have "get ?d1 ''fetch_limit'' = JNum fl" "get ?d1 ''crosspost_delay'' = JNum cd"
        using d0(3,4) by (simp_all add: get_update_from_file)
      moreover have "fst ` set ?d1 \<subseteq> set config_fields \<union> set (file_keys h)"
        using keys_update_from_file [of d0 fc] d0(5) unfolding fk by blast
      ultimately show ?thesis using p by blast
    qed
  qed
  then obtain d1 out where r: "phase = (Inr d1, out)"
      "list_all (\<lambda>f. (get d1 f \<noteq> JNull) = available h f) required_fields"
      "get d1 ''fetch_limit'' = JNum fl" "get d1 ''crosspost_delay'' = JNum cd"
      "fst ` set d1 \<subseteq> set config_fields \<union> set (file_keys h)"
    by blast
  show ?thesis
    apply (rule exI [of _ d1], rule exI [of _ out])
    using r lc by simp
qed

lemma missing_in_available:
  "list_all (\<lambda>f. (get d1 f \<noteq> JNull) = available h f) required_fields \<Longrightarrow>
   missing_in d1 = missing_fields h"
  unfolding missing_in_def missing_fields_def
  by (rule filter_cong) (auto simp: list_all_iff)

lemma sublist_join: "f \<in> set m \<Longrightarrow> sublist f (join sep m)"
proof (induction sep m rule: join.induct)
  case (1 sep)
  then show ?case by simp
next
  case (2 sep x)
  then show ?case by simp
next
  case (3 sep x y zs)
  show ?case
  proof (cases "f = x")
    case True
    then show ?thesis by (simp add: sublist_append_rightI)
  next
    case False
    then have "sublist f (join sep (y # zs))" using 3 by simp
    then obtain ps ss where "join sep (y # zs) = ps @ f @ ss" unfolding sublist_def by blast
    then have "join sep (x # y # zs) = (x @ sep @ ps) @ f @ ss" by simp
    then show ?thesis unfolding sublist_def by blast
  qed
qed

lemma sublist_missing_message:
  assumes "f \<in> set m"
  shows "sublist f (missing_message m)"
proof -
  obtain ps ss where "join '', '' m = ps @ f @ ss"
    using sublist_join [OF assms, of "'', ''"] unfolding sublist_def by blast
  then have "missing_message m = (''Missing required configuration: '' @ ps) @ f @ ss"
    by (simp add: missing_message_def)
  then show ?thesis unfolding sublist_def by blast
qed

lemma load_since_id_readable:
  "readable (read_json h ''crosspost_state.json'') \<Longrightarrow> \<exists>sid. load_since_id h = Inr sid"
  unfolding readable_def load_since_id_def
  by (auto split: sum.splits exn.splits json.splits)

lemma make_config_cases: "make_config d = Inl TypeError \<or> (\<exists>cfg. make_config d = Inr cfg)"
  by (simp add: make_config_def)

lemma commented_host_run: "fst (load_config commented_host) = Inl TypeError"
  by (simp add: load_config_def commented_host_def env_config_def environ_get_default_def
        environ_get_def missing_in_def required_fields_def get_def consult_file_def
        update_from_file_def items_def dict_set_def load_since_id_def make_config_def
        config_fields_def)

text \<open>
  Claim C9, as stated, fails: with an empty environment and a config file that gives the
  five required fields and one more key, no required field is missing, and yet loading
  does not succeed. Every key of the file is copied into the keyword arguments of
  \<open>Config\<close>, which refuses the one it does not know.
\<close>

theorem load_config_counterexample:
  "missing_fields commented_host = [] \<and> fst (load_config commented_host) = Inl TypeError \<and>
   (\<forall>cfg. fst (load_config commented_host) \<noteq> Inr cfg)"
  unfolding commented_host_run
  by (simp add: missing_fields_def available_def required_fields_def env_name_def file_value_def
        config_path_def environ_get_default_def commented_host_def get_def)

text \<open>
  Claim C9, amended. Let the two numeric settings convert to integers and let the
  config file be missing, undecodable or a JSON object. When a required field is
  absent from both the environment and the file, \<open>load_config\<close> raises the
  \<open>ValueError\<close> whose message lists the missing required fields, in the order of
  \<open>required_fields\<close>, and every one of them occurs in the message. When none is
  absent and the state file is missing, undecodable or an object, no \<open>ValueError\<close> is
  raised; and loading succeeds when moreover every key of the config file is a field
  of \<open>Config\<close>.
\<close>

theorem load_config_validation:
  assumes "py_int h (environ_get_default h ''FETCH_LIMIT'' ''20'') = Some fl"
    and "py_int h (environ_get_default h ''CROSSPOST_DELAY'' ''2'') = Some cd"
    and "readable (read_json h (config_path h))"
  shows "(missing_fields h \<noteq> [] \<longrightarrow>
            fst (load_config h) = Inl (ValueError (missing_message (missing_fields h))) \<and>
            list_all (\<lambda>f. sublist f (missing_message (missing_fields h))) (missing_fields h)) \<and>
         (missing_fields h = [] \<and> readable (read_json h ''crosspost_state.json'') \<longrightarrow>
            (\<forall>m. fst (load_config h) \<noteq> Inl (ValueError m)) \<and>
            (list_all (\<lambda>k. k \<in> set config_fields) (file_keys h) \<longrightarrow>
               (\<exists>cfg. fst (load_config h) = Inr cfg \<and>
                      fetch_limit cfg = fl \<and> crosspost_delay cfg = cd \<and>
                      list_all (\<lambda>v. v \<noteq> JNull)
                        [misskey_instance cfg, misskey_token cfg, misskey_user_id cfg,
                         mastodon_instance cfg, mastodon_token cfg])))"
proof -
  obtain d1 out where m:
      "load_config h =
         (if missing_in d1 \<noteq> []
          then (Inl (ValueError (missing_message (missing_in d1))), out)
          else (case load_since_id h of
                  Inl e \<Rightarrow> (Inl e, out)
                | Inr sid \<Rightarrow> (make_config (dict_set d1 ''since_id'' sid), out)))"
      "list_all (\<lambda>f. (get d1 f \<noteq> JNull) = available h f) required_fields"
      "get d1 ''fetch_limit'' = JNum fl" "get d1 ''crosspost_delay'' = JNum cd"
      "fst ` set d1 \<subseteq> set config_fields \<union> set (file_keys h)"
    using merged_config [OF assms] by blast
  have mi: "missing_in d1 = missing_fields h" using missing_in_available [OF m(2)] .
  have part1: "fst (load_config h) = Inl (ValueError (missing_message (missing_fields h))) \<and>
       list_all (\<lambda>f. sublist f (missing_message (missing_fields h))) (missing_fields h)"
    if "missing_fields h \<noteq> []"
    using that m(1) mi by (simp add: list_all_iff sublist_missing_message)
  have part2: "(\<forall>m. fst (load_config h) \<noteq> Inl (ValueError m)) \<and>
       (list_all (\<lambda>k. k \<in> set config_fields) (file_keys h) \<longrightarrow>
          (\<exists>cfg. fst (load_config h) = Inr cfg \<and>
                 fetch_limit cfg = fl \<and> crosspost_delay cfg = cd \<and>
                 list_all (\<lambda>v. v \<noteq> JNull)
                   [misskey_instance cfg, misskey_token cfg, misskey_user_id cfg,
                    mastodon_instance cfg, mastodon_token cfg]))"
    if none: "missing_fields h = []" and st: "readable (read_json h ''crosspost_state.json'')"
  proof -
    obtain sid where sid: "load_since_id h = Inr sid"
      using load_since_id_readable [OF st] by blast
    let ?d2 = "dict_set d1 ''since_id'' sid"
    have lc: "fst (load_config h) = make_config ?d2"
      using m(1) mi none sid by simp
    have nov: "\<forall>m. fst (load_config h) \<noteq> Inl (ValueError m)"
      unfolding lc using make_config_cases [of ?d2] by auto
    have req: "list_all (\<lambda>f. get d1 f \<noteq> JNull) required_fields"
      using mi none by (simp add: missing_in_def filter_empty_conv list_all_iff)
    have ok: "\<exists>cfg. make_config ?d2 = Inr cfg \<and>
                 fetch_limit cfg = fl \<and> crosspost_delay cfg = cd \<and>
                 list_all (\<lambda>v. v \<noteq> JNull)
                   [misskey_instance cfg, misskey_token cfg, misskey_user_id cfg,
                    mastodon_instance cfg, mastodon_token cfg]"
      if keys: "list_all (\<lambda>k. k \<in> set config_fields) (file_keys h)"
    proof -
      have "set (file_keys h) \<subseteq> set config_fields" using keys by (auto simp: list_all_iff)
      then have "fst ` set ?d2 \<subseteq> set config_fields"
        using m(5) by (auto simp: keys_dict_set config_fields_def)
      then have all: "list_all (\<lambda>k. k \<in> set config_fields) (map fst ?d2)"
        by (auto simp: list_all_iff)
      show ?thesis
        using all req m(3,4)
        by (simp add: make_config_def get_dict_set int_field_def required_fields_def)
    qed
    show ?thesis using nov ok unfolding lc by blast
  qed
  show ?thesis using part1 part2 by blast
qed

theorem load_config_validation_witness:
  "py_int partial_host (environ_get_default partial_host ''FETCH_LIMIT'' ''20'') = Some 20 \<and>
   py_int partial_host (environ_get_default partial_host ''CROSSPOST_DELAY'' ''2'') = Some 2 \<and>
   readable (read_json partial_host (config_path partial_host)) \<and>
   missing_fields partial_host = [''misskey_token'', ''misskey_user_id'', ''mastodon_instance''] \<and>
   fst (load_config partial_host) =
     Inl (ValueError
       ''Missing required configuration: misskey_token, misskey_user_id, mastodon_instance'') \<and>
   readable (read_json complete_host (config_path complete_host)) \<and>
   readable (read_json complete_host ''crosspost_state.json'') \<and>
   missing_fields complete_host = [] \<and>
   list_all (\<lambda>k. k \<in> set config_fields) (file_keys complete_host) \<and>
   (\<exists>cfg. fst (load_config complete_host) = Inr cfg \<and> fetch_limit cfg = 20 \<and>
          crosspost_delay cfg = 2)"
proof -
  have p1: "py_int partial_host (environ_get_default partial_host ''FETCH_LIMIT'' ''20'') = Some 20"
    and p2: "py_int partial_host (environ_get_default partial_host ''CROSSPOST_DELAY'' ''2'') = Some 2"
    and p3: "readable (read_json partial_host (config_path partial_host))"
    by (simp_all add: partial_host_def environ_get_default_def readable_def)
  have pm: "missing_fields partial_host = [''misskey_token'', ''misskey_user_id'', ''mastodon_instance'']"
    by (simp add: missing_fields_def available_def required_fields_def env_name_def
          file_value_def partial_host_def)
  have msg: "missing_message [''misskey_token'', ''misskey_user_id'', ''mastodon_instance''] =
      ''Missing required configuration: misskey_token, misskey_user_id, mastodon_instance''"
    by (simp add: missing_message_def)
  have r1: "fst (load_config partial_host) =
     Inl (ValueError
       ''Missing required configuration: misskey_token, misskey_user_id, mastodon_instance'')"
    using conjunct1 [OF load_config_validation [OF p1 p2 p3]] unfolding pm msg by simp
  have c1: "py_int complete_host (environ_get_default complete_host ''FETCH_LIMIT'' ''20'') = Some 20"
    and c2: "py_int complete_host (environ_get_default complete_host ''CROSSPOST_DELAY'' ''2'') = Some 2"
    and c3: "readable (read_json complete_host (config_path complete_host))"
    and c4: "readable (read_json complete_host ''crosspost_state.json'')"
    by (simp_all add: complete_host_def environ_get_default_def readable_def config_path_def)
  have cm: "missing_fields complete_host = []"
    by (simp add: missing_fields_def available_def required_fields_def env_name_def
          complete_host_def)
  have ck: "list_all (\<lambda>k. k \<in> set config_fields) (file_keys complete_host)"
    by (simp add: file_keys_def complete_host_def config_path_def environ_get_default_def)
  have r2: "\<exists>cfg. fst (load_config complete_host) = Inr cfg \<and> fetch_limit cfg = 20 \<and>
          crosspost_delay cfg = 2"
    using conjunct2 [OF load_config_validation [OF c1 c2 c3]] cm c4 ck by blast
  show ?thesis using p1 p2 p3 pm r1 c3 c4 cm ck r2 by blast
qed

end
